theory Spec2Isabelle
  imports Complex_Main "HOL-Library.Sublist"
begin

section \<open>Python strings\<close>

text \<open>
  A Python \<open>str\<close> is a sequence of Unicode code points, and \<open>len\<close> counts code points.
  A code point is modelled as a natural number (Python's range is \<open>0 .. 0x10FFFF\<close>; the
  results below hold for every list of naturals), a string as the list of its code points.
  \<open>lit\<close> turns an ASCII literal of the source into that representation.
\<close>

type_synonym pystr = "nat list"

definition lit :: "string \<Rightarrow> pystr" where
  "lit s = map of_char s"

text \<open>\<open>sub in s\<close> on strings: \<open>sub\<close> occurs in \<open>s\<close> as a contiguous run.\<close>

fun contains :: "pystr \<Rightarrow> pystr \<Rightarrow> bool" where
  "contains sub [] = (sub = [])"
| "contains sub (c # cs) = (prefix sub (c # cs) \<or> contains sub cs)"

text \<open>
  \<open>s.replace(old, new)\<close>: the non-overlapping occurrences of \<open>old\<close> are replaced from
  left to right. With an empty \<open>old\<close> Python puts \<open>new\<close> before every character and at
  the end.
\<close>

fun str_replace :: "pystr \<Rightarrow> pystr \<Rightarrow> pystr \<Rightarrow> pystr" where
  "str_replace old new [] = (if old = [] then new else [])"
| "str_replace old new (c # cs) =
     (if old = [] then new @ c # str_replace old new cs
      else if prefix old (c # cs)
        then new @ str_replace old new (drop (length old - 1) cs)
      else c # str_replace old new cs)"

text \<open>\<open>str(n)\<close> for a non-negative integer: its decimal digits.\<close>

fun str_nat :: "nat \<Rightarrow> pystr" where
  "str_nat n = (if n < 10 then [48 + n] else str_nat (n div 10) @ [48 + n mod 10])"

declare str_nat.simps [simp del]

text \<open>
  \<open>str.isspace\<close> for one code point, the set that \<open>str.strip()\<close> removes:
  \<open>\t \n \v \f \r\<close>, \<open>0x1C .. 0x1F\<close>, space, \<open>0x85\<close>, \<open>0xA0\<close>, \<open>U+1680\<close>,
  \<open>U+2000 .. U+200A\<close>, \<open>U+2028\<close>, \<open>U+2029\<close>, \<open>U+202F\<close>, \<open>U+205F\<close>, \<open>U+3000\<close>.
\<close>

definition is_space :: "nat \<Rightarrow> bool" where
  "is_space c \<longleftrightarrow>
     (9 \<le> c \<and> c \<le> 13) \<or> (28 \<le> c \<and> c \<le> 32) \<or> c = 133 \<or> c = 160 \<or> c = 5760
     \<or> (8192 \<le> c \<and> c \<le> 8202) \<or> c = 8232 \<or> c = 8233 \<or> c = 8239 \<or> c = 8287
     \<or> c = 12288"

definition strip :: "pystr \<Rightarrow> pystr" where
  "strip s = rev (dropWhile is_space (rev (dropWhile is_space s)))"

text \<open>
  The slice \<open>p[start:end]\<close> for integer bounds: a negative bound counts from the end, and
  both are clamped to \<open>0 .. len(p)\<close>.
\<close>

definition slice_bound :: "pystr \<Rightarrow> int \<Rightarrow> nat" where
  "slice_bound p i =
     (if i < 0 then nat (max 0 (i + int (length p))) else min (nat i) (length p))"

definition py_slice :: "pystr \<Rightarrow> int \<Rightarrow> int \<Rightarrow> pystr" where
  "py_slice p start end =
     take (slice_bound p end - slice_bound p start) (drop (slice_bound p start) p)"

section \<open>sanitize\_text (adamus-index-images.py)\<close>

text \<open>
  \<open>value.encode("utf-8", "ignore").decode("utf-8")\<close>: the only code points of a Python
  string that UTF-8 cannot encode are the surrogates \<open>U+D800 .. U+DFFF\<close>; the error
  handler \<open>ignore\<close> drops them, and decoding gives back the rest.
\<close>

definition is_surrogate :: "nat \<Rightarrow> bool" where
  "is_surrogate c \<longleftrightarrow> 55296 \<le> c \<and> c \<le> 57343"

definition utf8_ignore :: "pystr \<Rightarrow> pystr" where
  "utf8_ignore s = filter (\<lambda>c. \<not> is_surrogate c) s"

text \<open>The character class \<open>[\x00-\x08\x0B\x0C\x0E-\x1F]\<close> of the regular expression.\<close>

definition in_ctrl_class :: "nat \<Rightarrow> bool" where
  "in_ctrl_class c \<longleftrightarrow> c \<le> 8 \<or> c = 11 \<or> c = 12 \<or> (14 \<le> c \<and> c \<le> 31)"

text \<open>\<open>None\<close> and the empty string are the falsy inputs; both give the empty string.\<close>

definition sanitize_text :: "pystr option \<Rightarrow> pystr" where
  "sanitize_text v =
     (case v of
        None \<Rightarrow> []
      | Some s \<Rightarrow>
          if s = [] then []
          else filter (\<lambda>c. \<not> in_ctrl_class c)
                 (str_replace [13] [10] (str_replace [13, 10] [10] (utf8_ignore s))))"

text \<open>
  The specification's wording of the line-ending rule, as one pass over the text:
  a \<open>\r\n\<close> pair becomes one \<open>\n\<close>, any other \<open>\r\<close> becomes \<open>\n\<close>.
\<close>

fun normalize_newlines :: "pystr \<Rightarrow> pystr" where
  "normalize_newlines [] = []"
| "normalize_newlines [c] = (if c = 13 then [10] else [c])"
| "normalize_newlines (c # d # cs) =
     (if c = 13 \<and> d = 10 then 10 # normalize_newlines cs
      else if c = 13 then 10 # normalize_newlines (d # cs)
      else c # normalize_newlines (d # cs))"

text \<open>The ASCII control characters: \<open>0x00 .. 0x1F\<close> and DEL, \<open>0x7F\<close>.\<close>

definition ascii_control :: "nat \<Rightarrow> bool" where
  "ascii_control c \<longleftrightarrow> c < 32 \<or> c = 127"

section \<open>sql\_literal\<close>

text \<open>
  adamus-index-images.py: the loop \<open>while tag in safe\<close> with its two variables, the
  current tag and the counter.
\<close>

definition numbered_tag :: "nat \<Rightarrow> pystr" where
  "numbered_tag k = lit ''$adamus_'' @ str_nat k @ lit ''$''"

lemma str_nat_bound: "n < 10 ^ length (str_nat n)"
proof (induction n rule: str_nat.induct)
  case (1 n)
  show ?case
  proof (cases "n < 10")
    case True
    then show ?thesis by (subst str_nat.simps) simp
  next
    case False
    with 1 have "n div 10 < 10 ^ length (str_nat (n div 10))" by simp
    then have "n < 10 * 10 ^ length (str_nat (n div 10))" by linarith
    with False show ?thesis by (subst str_nat.simps) simp
  qed
qed

lemma contains_sublist: "contains sub s \<longleftrightarrow> sublist sub s"
  by (induction s) (auto simp: sublist_Cons_right)

lemma contains_length: "contains sub s \<Longrightarrow> length sub \<le> length s"
  by (auto simp: contains_sublist sublist_def)

lemma numbered_tag_long: "10 ^ length s \<le> k \<Longrightarrow> \<not> contains (numbered_tag k) s"
proof
  assume big: "10 ^ length s \<le> k" and c: "contains (numbered_tag k) s"
  have "length (str_nat k) \<le> length (numbered_tag k)"
    by (simp add: numbered_tag_def)
  with contains_length [OF c] have "length (str_nat k) \<le> length s" by simp
  then have "(10::nat) ^ length (str_nat k) \<le> 10 ^ length s"
    by (simp add: power_increasing)
  also note big
  finally show False using str_nat_bound [of k] by simp
qed

function tag_loop :: "pystr \<Rightarrow> pystr \<Rightarrow> nat \<Rightarrow> pystr" where
  "tag_loop safe tag counter =
     (if contains tag safe
      then tag_loop safe (numbered_tag (counter + 1)) (counter + 1)
      else tag)"
  by pat_completeness auto
termination
proof (relation "measure (\<lambda>(safe, tag, counter).
          if 10 ^ length safe \<le> counter then (if contains tag safe then 1 else 0)
          else 10 ^ length safe - counter + 1)")
  show "wf (measure (\<lambda>(safe, tag, counter).
          if 10 ^ length safe \<le> counter then (if contains tag safe then 1 else 0)
          else 10 ^ length safe - counter + 1))"
    by simp
next
  fix safe tag :: pystr and counter :: nat
  assume "contains tag safe"
  then show "((safe, numbered_tag (counter + 1), counter + 1), (safe, tag, counter))
      \<in> measure (\<lambda>(safe, tag, counter).
          if 10 ^ length safe \<le> counter then (if contains tag safe then 1 else 0)
          else 10 ^ length safe - counter + 1)"
    using numbered_tag_long [of safe "counter + 1"] by auto
qed

definition sql_literal_img :: "pystr \<Rightarrow> pystr" where
  "sql_literal_img v =
     (let safe = sanitize_text (Some v);
          tag = tag_loop safe (lit ''$adamus$'') 0
      in tag @ safe @ tag)"

text \<open>adamus-index-pdf.py: at most two escalations, to fixed tags.\<close>

definition sql_tag_pdf :: "pystr \<Rightarrow> pystr" where
  "sql_tag_pdf safe =
     (if contains (lit ''$adamus$'') safe
      then (if contains (lit ''$adamus_text$'') safe
            then lit ''$adamus_chunk$''
            else lit ''$adamus_text$'')
      else lit ''$adamus$'')"

definition sql_literal_pdf :: "pystr \<Rightarrow> pystr" where
  "sql_literal_pdf v =
     (let safe = str_replace [0] [] v;
          tag = sql_tag_pdf safe
      in tag @ safe @ tag)"

section \<open>chunk\_text\<close>

text \<open>
  \<open>re.split(r"\n{2,}", text)\<close> (adamus-index-images.py): a separator is a maximal run
  of two or more \<open>\n\<close>; a single \<open>\n\<close> stays inside its piece. The pieces before the
  first and after the last separator are kept also when empty.
\<close>

function split_blank :: "pystr \<Rightarrow> pystr \<Rightarrow> pystr list" where
  "split_blank cur [] = [cur]"
| "split_blank cur [c] = [cur @ [c]]"
| "split_blank cur (c # d # cs) =
     (if c = 10 \<and> d = 10 then cur # split_blank [] (dropWhile (\<lambda>x. x = 10) cs)
      else split_blank (cur @ [c]) (d # cs))"
  by pat_completeness auto
termination
  by (relation "measure (\<lambda>(cur, s). length s)")
     (auto simp: le_imp_less_Suc length_dropWhile_le less_Suc_eq_le le_SucI)

text \<open>
  \<open>text.splitlines()\<close> (adamus-index-pdf.py): a line ends at \<open>\n\<close>, \<open>\r\<close>, \<open>\r\n\<close>,
  \<open>\v\<close>, \<open>\f\<close>, \<open>0x1C\<close>, \<open>0x1D\<close>, \<open>0x1E\<close>, \<open>0x85\<close>, \<open>U+2028\<close> or \<open>U+2029\<close>; the line
  breaks are not part of the lines, and there is no empty last line.
\<close>

definition is_linebreak :: "nat \<Rightarrow> bool" where
  "is_linebreak c \<longleftrightarrow>
     (10 \<le> c \<and> c \<le> 13) \<or> (28 \<le> c \<and> c \<le> 30) \<or> c = 133 \<or> c = 8232 \<or> c = 8233"

fun splitlines :: "pystr \<Rightarrow> pystr \<Rightarrow> pystr list" where
  "splitlines cur [] = (if cur = [] then [] else [cur])"
| "splitlines cur [c] = (if is_linebreak c then [cur] else [cur @ [c]])"
| "splitlines cur (c # d # cs) =
     (if c = 13 \<and> d = 10 then cur # splitlines [] cs
      else if is_linebreak c then cur # splitlines [] (d # cs)
      else splitlines (cur @ [c]) (d # cs))"

text \<open>\<open>[p.strip() for p in pieces if p.strip()]\<close>\<close>

definition paragraphs_of :: "pystr list \<Rightarrow> pystr list" where
  "paragraphs_of pieces = map strip (filter (\<lambda>p. strip p \<noteq> []) pieces)"

text \<open>
  The hard-split loop \<open>while start < len(p)\<close>. With \<open>max_len \<le> 0\<close> the source never
  leaves it, so the loop is a partial function: \<open>None\<close> is "does not return".
\<close>

definition next_start :: "pystr \<Rightarrow> int \<Rightarrow> int \<Rightarrow> int \<Rightarrow> int" where
  "next_start p max_len overlap start =
     (let end = min (start + max_len) (int (length p))
      in if end - overlap > start then end - overlap else end)"

partial_function (option)
  hard_split :: "pystr \<Rightarrow> int \<Rightarrow> int \<Rightarrow> int \<Rightarrow> pystr list \<Rightarrow> pystr list option"
where
  "hard_split p max_len overlap start chunks =
     (if start < int (length p)
      then hard_split p max_len overlap (next_start p max_len overlap start)
             (chunks @ [py_slice p start (min (start + max_len) (int (length p)))])
      else Some chunks)"

declare hard_split.simps [code]

text \<open>The loop \<open>for p in paragraphs\<close>, on the pair of \<open>chunks\<close> and \<open>current\<close>.\<close>

fun chunk_paragraphs ::
  "int \<Rightarrow> int \<Rightarrow> pystr list \<Rightarrow> pystr list \<times> pystr \<Rightarrow> (pystr list \<times> pystr) option"
where
  "chunk_paragraphs max_len overlap [] st = Some st"
| "chunk_paragraphs max_len overlap (p # ps) (chunks, current) =
     (if int (length current) + int (length p) + 1 \<le> max_len
      then chunk_paragraphs max_len overlap ps (chunks, strip (current @ [10] @ p))
      else
        let chunks1 = (if current \<noteq> [] then chunks @ [current] else chunks)
        in if int (length p) \<le> max_len
           then chunk_paragraphs max_len overlap ps (chunks1, p)
           else (case hard_split p max_len overlap 0 chunks1 of
                   None \<Rightarrow> None
                 | Some chunks2 \<Rightarrow> chunk_paragraphs max_len overlap ps (chunks2, [])))"

definition chunk_pieces :: "pystr list \<Rightarrow> int \<Rightarrow> int \<Rightarrow> pystr list option" where
  "chunk_pieces pieces max_len overlap =
     (case chunk_paragraphs max_len overlap (paragraphs_of pieces) ([], []) of
        None \<Rightarrow> None
      | Some (chunks, current) \<Rightarrow>
          Some (if current \<noteq> [] then chunks @ [current] else chunks))"

text \<open>The two variants differ in how the text is cut into paragraphs, and in nothing else.\<close>

definition chunk_text_img :: "pystr \<Rightarrow> int \<Rightarrow> int \<Rightarrow> pystr list option" where
  "chunk_text_img text max_len overlap =
     (if text = [] then Some [] else chunk_pieces (split_blank [] text) max_len overlap)"

definition chunk_text_pdf :: "pystr \<Rightarrow> int \<Rightarrow> int \<Rightarrow> pystr list option" where
  "chunk_text_pdf text max_len overlap =
     (if text = [] then Some [] else chunk_pieces (splitlines [] text) max_len overlap)"

text \<open>What C4 and C10 ask of a chunk: it is not empty and at most \<open>max_len\<close> long.\<close>

definition good :: "int \<Rightarrow> pystr \<Rightarrow> bool" where
  "good max_len w \<longleftrightarrow> w \<noteq> [] \<and> int (length w) \<le> max_len"

section \<open>The remote services and the trace of a run\<close>

text \<open>
  The scripts talk to three services: the SQL endpoint, the OCR endpoint and the PDF
  reader. Each is a function on the state \<open>'w\<close> of the outside world, of which nothing is
  assumed. What a run does is recorded in a trace of events, in the order of the source.
\<close>

datatype exc =
    HTTPError int
  | TimeoutError
  | URLError
  | RuntimeError
  | IndexError
  | KeyError
  | TypeError
  | ValueError
  | SystemExit
  | KeyboardInterrupt

text \<open>
  What \<open>except Exception\<close> catches: \<open>SystemExit\<close> and \<open>KeyboardInterrupt\<close> derive from
  \<open>BaseException\<close> only, and pass through such a handler.
\<close>

definition is_exception :: "exc \<Rightarrow> bool" where
  "is_exception e \<longleftrightarrow> e \<noteq> SystemExit \<and> e \<noteq> KeyboardInterrupt"

text \<open>
  The SQL texts the scripts build, one constructor for each template of the source, with
  the interpolated values as arguments (page numbers and chunk indices as numbers, the
  rest as the text that is interpolated).
\<close>

datatype stmt =
    UpsertSubject pystr pystr
  | SelectMaterial pystr
  | InsertMaterial pystr "pystr option" "pystr option" pystr pystr pystr nat
  | SelectPages pystr
  | UpsertPage pystr nat pystr pystr
  | UpsertPageText pystr nat pystr pystr
  | DeleteChunks pystr
  | InsertChunk pystr pystr nat pystr

datatype message =
    MsgImages nat
  | MsgOcr nat nat pystr
  | MsgSkip nat pystr
  | MsgChunkFailed nat nat exc
  | MsgPreview pystr
  | MsgFallbackOk nat nat
  | MsgFallbackFailed nat nat exc
  | MsgDone

text \<open>
  \<open>Sleep d\<close> is a call of \<open>time.sleep\<close> whose argument has the decimal value \<open>d\<close>.
\<close>

datatype event =
    Http stmt
  | Sleep rat
  | Ocr pystr
  | Extract nat
  | Print message

text \<open>A row of the query for the stored pages of a material.\<close>

record page_row =
  page_no :: int
  image_uri :: "pystr option"
  chunk_count :: int

record 'w remote =
  sql_api :: "'w \<Rightarrow> stmt \<Rightarrow> (exc + pystr) \<times> 'w"
  vision_api :: "'w \<Rightarrow> pystr \<Rightarrow> (exc + pystr option) \<times> 'w"
  pdf_page :: "'w \<Rightarrow> nat \<Rightarrow> (exc + pystr option) \<times> 'w"
  json_ids :: "pystr \<Rightarrow> exc + pystr list"
  json_pages :: "pystr \<Rightarrow> exc + page_row list"

text \<open>
  \<open>sql_api\<close> is one \<open>urlopen\<close> with \<open>resp.read()\<close>: the body, or the exception raised.
  \<open>vision_api\<close> is the request of \<open>call_vision\<close>: the text of the full-text annotation
  when the response has one. \<open>pdf_page\<close> is \<open>page.extract_text()\<close> of one page.
  \<open>json_ids\<close> reads a response as rows and gives their \<open>id\<close> fields; \<open>json_pages\<close> gives
  \<open>page_no\<close>, \<open>image_uri\<close> (\<open>None\<close> for null) and \<open>chunk_count\<close> of each row.
\<close>

type_synonym 'w state = "'w \<times> event list"

definition emit :: "event list \<Rightarrow> 'w state \<Rightarrow> 'w state" where
  "emit es st = (fst st, snd st @ es)"

subsection \<open>sql\_query\<close>

text \<open>
  Both scripts call \<open>sql_query(token, query)\<close> and nothing else: in every run the
  parameters \<open>retries\<close> and \<open>backoff\<close> have their defaults 5 and 1.5, and the model fixes
  them there. The arguments of \<open>time.sleep\<close> are then 1.5, 3.0, 4.5, 6.0 and 7.5, products
  that floating point computes exactly and that \<open>time.sleep\<close> accepts. (For another
  \<open>backoff\<close> the product is a rounded one, and \<open>time.sleep\<close> refuses a negative one.)
\<close>

definition default_retries :: nat where
  "default_retries = 5"

definition default_backoff :: rat where
  "default_backoff = 3 / 2"

definition retryable :: "int \<Rightarrow> bool" where
  "retryable code \<longleftrightarrow> code \<in> {401, 429, 500, 502, 503, 504}"

text \<open>
  The loop \<open>for attempt in range(retries + 1)\<close>, on the attempts still to come. Only
  \<open>urllib.error.HTTPError\<close> is caught; any other exception of \<open>urlopen\<close> leaves the
  function at once. A loop that runs out of attempts ends the function without
  \<open>return\<close>, which gives \<open>None\<close>.
\<close>

fun sql_attempts ::
  "'w remote \<Rightarrow> stmt \<Rightarrow> nat list \<Rightarrow> 'w state \<Rightarrow> (exc + pystr option) \<times> 'w state"
where
  "sql_attempts R query [] st = (Inr None, st)"
| "sql_attempts R query (attempt # rest) st =
     (case sql_api R (fst st) query of
        (Inr body, w) \<Rightarrow> (Inr (Some body), (w, snd st @ [Http query]))
      | (Inl e, w) \<Rightarrow>
          (case e of
             HTTPError code \<Rightarrow>
               if retryable code \<and> attempt < default_retries
               then sql_attempts R query rest
                      (w, snd st @ [Http query,
                                    Sleep (default_backoff * of_nat (attempt + 1))])
               else (Inl e, (w, snd st @ [Http query]))
           | _ \<Rightarrow> (Inl e, (w, snd st @ [Http query]))))"

definition sql_query ::
  "'w remote \<Rightarrow> stmt \<Rightarrow> 'w state \<Rightarrow> (exc + pystr option) \<times> 'w state"
where
  "sql_query R query st = sql_attempts R query [0 ..< default_retries + 1] st"

text \<open>The failures that \<open>sql_query\<close> answers with a retry, and the outcomes of a request
  after which it goes on to the next attempt.\<close>

definition retryable_exc :: "exc \<Rightarrow> bool" where
  "retryable_exc e = (case e of HTTPError code \<Rightarrow> retryable code | _ \<Rightarrow> False)"

definition asks_retry :: "exc + pystr \<Rightarrow> bool" where
  "asks_retry r = (case r of Inl e \<Rightarrow> retryable_exc e | Inr body \<Rightarrow> False)"

text \<open>
  The state of the world before request number \<open>i\<close> (from 0) of a series of requests
  with one statement, and what \<open>sql_query\<close> makes of the outcome of its last request.
\<close>

fun world_before :: "'w remote \<Rightarrow> stmt \<Rightarrow> 'w \<Rightarrow> nat \<Rightarrow> 'w" where
  "world_before R query w 0 = w"
| "world_before R query w (Suc i) = snd (sql_api R (world_before R query w i) query)"

definition outcome :: "'w remote \<Rightarrow> stmt \<Rightarrow> 'w \<Rightarrow> nat \<Rightarrow> exc + pystr" where
  "outcome R query w i = fst (sql_api R (world_before R query w i) query)"

definition returned :: "exc + pystr \<Rightarrow> exc + pystr option" where
  "returned r = (case r of Inl e \<Rightarrow> Inl e | Inr body \<Rightarrow> Inr (Some body))"

text \<open>
  \<open>json.loads(res)\<close> read as rows (\<open>json.loads(None)\<close> raises \<open>TypeError\<close>), and
  \<open>json.loads(res)[0]["id"]\<close>.
\<close>

definition load_ids :: "'w remote \<Rightarrow> pystr option \<Rightarrow> exc + pystr list" where
  "load_ids R res = (case res of None \<Rightarrow> Inl TypeError | Some body \<Rightarrow> json_ids R body)"

definition load_pages :: "'w remote \<Rightarrow> pystr option \<Rightarrow> exc + page_row list" where
  "load_pages R res = (case res of None \<Rightarrow> Inl TypeError | Some body \<Rightarrow> json_pages R body)"

definition first_id :: "'w remote \<Rightarrow> pystr option \<Rightarrow> exc + pystr" where
  "first_id R res =
     (case load_ids R res of
        Inl e \<Rightarrow> Inl e
      | Inr [] \<Rightarrow> Inl IndexError
      | Inr (i # _) \<Rightarrow> Inr i)"

definition sql_escape :: "pystr \<Rightarrow> pystr" where
  "sql_escape v = str_replace (lit [CHR 0x27]) (lit [CHR 0x27, CHR 0x27]) v"

text \<open>An exception ends what follows; otherwise the result and the state go on.\<close>

definition and_then ::
  "(exc + 'a) \<times> 's \<Rightarrow> ('a \<Rightarrow> 's \<Rightarrow> ((exc + 'b) \<times> 's) option)
     \<Rightarrow> ((exc + 'b) \<times> 's) option"
where
  "and_then r f = (case r of (Inl e, s) \<Rightarrow> Some (Inl e, s) | (Inr a, s) \<Rightarrow> f a s)"

section \<open>The drivers\<close>

text \<open>
  The values \<open>main\<close> reads from the environment (\<open>chapter\<close> and \<open>paragraph\<close> may be
  unset). The PDF script reads neither the forced pages nor the chunk sizes.
\<close>

record config =
  subject_name :: pystr
  subject_description :: pystr
  chapter_opt :: "pystr option"
  paragraph_opt :: "pystr option"
  title :: pystr
  source_uri :: pystr
  force_pages :: "nat set"
  chunk_max :: int
  chunk_overlap :: int

subsection \<open>Subject, material and stored pages (both scripts)\<close>

definition resolve_subject ::
  "'w remote \<Rightarrow> config \<Rightarrow> 'w state \<Rightarrow> (exc + pystr) \<times> 'w state"
where
  "resolve_subject R cfg st =
     (case sql_query R
             (UpsertSubject (sql_escape (subject_name cfg))
                (sql_escape (subject_description cfg))) st of
        (Inl e, st1) \<Rightarrow> (Inl e, st1)
      | (Inr res, st1) \<Rightarrow> (first_id R res, st1))"

definition resolve_material ::
  "'w remote \<Rightarrow> config \<Rightarrow> pystr \<Rightarrow> nat \<Rightarrow> pystr \<Rightarrow> 'w state \<Rightarrow> (exc + pystr) \<times> 'w state"
where
  "resolve_material R cfg source_type n subject_id st =
     (case sql_query R (SelectMaterial (sql_escape (source_uri cfg))) st of
        (Inl e, st1) \<Rightarrow> (Inl e, st1)
      | (Inr res, st1) \<Rightarrow>
          (case load_ids R res of
             Inl e \<Rightarrow> (Inl e, st1)
           | Inr (i # _) \<Rightarrow> (Inr i, st1)
           | Inr [] \<Rightarrow>
               (case sql_query R
                       (InsertMaterial subject_id (map_option sql_escape (chapter_opt cfg))
                          (map_option sql_escape (paragraph_opt cfg)) (sql_escape (title cfg))
                          source_type (sql_escape (source_uri cfg)) n) st1 of
                  (Inl e, st2) \<Rightarrow> (Inl e, st2)
                | (Inr res2, st2) \<Rightarrow> (first_id R res2, st2))))"

definition fetch_pages ::
  "'w remote \<Rightarrow> pystr \<Rightarrow> 'w state \<Rightarrow> (exc + page_row list) \<times> 'w state"
where
  "fetch_pages R material_id st =
     (case sql_query R (SelectPages material_id) st of
        (Inl e, st1) \<Rightarrow> (Inl e, st1)
      | (Inr res, st1) \<Rightarrow> (load_pages R res, st1))"

text \<open>
  The part of \<open>main\<close> between the input and the loop over the pages: the subject, the
  material, and the stored pages of the material. It gives the id of the material and
  the rows.
\<close>

definition prepare ::
  "'w remote \<Rightarrow> config \<Rightarrow> pystr \<Rightarrow> nat \<Rightarrow> 'w state
     \<Rightarrow> (exc + pystr \<times> page_row list) \<times> 'w state"
where
  "prepare R cfg source_type n st =
     (case resolve_subject R cfg st of
        (Inl e, st1) \<Rightarrow> (Inl e, st1)
      | (Inr subject_id, st1) \<Rightarrow>
          (case resolve_material R cfg source_type n subject_id st1 of
             (Inl e, st2) \<Rightarrow> (Inl e, st2)
           | (Inr material_id, st2) \<Rightarrow>
               (case fetch_pages R material_id st2 of
                  (Inl e, st3) \<Rightarrow> (Inl e, st3)
                | (Inr rows, st3) \<Rightarrow> (Inr (material_id, rows), st3))))"

text \<open>
  \<open>{row["page_no"]: row for row in existing_pages}\<close> and
  \<open>{row["image_uri"]: row for row in existing_pages if row["image_uri"]}\<close>: a later row
  with the same key replaces an earlier one.
\<close>

definition existing_by_page :: "page_row list \<Rightarrow> int \<rightharpoonup> page_row" where
  "existing_by_page rows = fold (\<lambda>r m. m(page_no r \<mapsto> r)) rows Map.empty"

definition existing_by_uri :: "page_row list \<Rightarrow> pystr \<rightharpoonup> page_row" where
  "existing_by_uri rows =
     fold (\<lambda>r m. case image_uri r of
                    None \<Rightarrow> m
                  | Some u \<Rightarrow> if u \<noteq> [] then m(u \<mapsto> r) else m) rows Map.empty"

text \<open>\<open>existing and int(existing.get("chunk_count", 0)) > 0\<close>\<close>

definition has_chunks :: "page_row option \<Rightarrow> bool" where
  "has_chunks existing = (case existing of None \<Rightarrow> False | Some r \<Rightarrow> chunk_count r > 0)"

text \<open>The last step of both \<open>main\<close>s: \<open>print("done")\<close> when the loop has come to its end.\<close>

definition finish ::
  "((exc + unit) \<times> 'w state) option \<Rightarrow> ((exc + unit) \<times> 'w state) option"
where
  "finish r =
     (case r of
        None \<Rightarrow> None
      | Some (Inl e, st) \<Rightarrow> Some (Inl e, st)
      | Some (Inr u, st) \<Rightarrow> Some (Inr (), emit [Print MsgDone] st))"

subsection \<open>adamus-index-images.py\<close>

text \<open>
  An image is given by \<open>image_path.as_posix()\<close>, the path that is read and that the URI
  is built from. \<open>image_path.name\<close>, which the messages show, is its last component.
\<close>

definition path_name :: "pystr \<Rightarrow> pystr" where
  "path_name p = rev (takeWhile (\<lambda>c. c \<noteq> 47) (rev p))"

definition call_vision ::
  "'w remote \<Rightarrow> pystr \<Rightarrow> 'w state \<Rightarrow> (exc + pystr) \<times> 'w state"
where
  "call_vision R image_path st =
     (case vision_api R (fst st) image_path of
        (Inl e, w) \<Rightarrow>
          (Inl (case e of HTTPError code \<Rightarrow> RuntimeError | _ \<Rightarrow> e),
           (w, snd st @ [Ocr image_path]))
      | (Inr annotation, w) \<Rightarrow>
          (Inr (sanitize_text
                  (Some (strip (case annotation of None \<Rightarrow> [] | Some t \<Rightarrow> t)))),
           (w, snd st @ [Ocr image_path])))"

text \<open>\<open>chunk.encode("ascii", "ignore").decode("ascii")\<close>\<close>

definition ascii_ignore :: "pystr \<Rightarrow> pystr" where
  "ascii_ignore s = filter (\<lambda>c. c < 128) s"

text \<open>
  The body of the loop over the chunks of a page: the \<open>try\<close>, and in its handler the
  inner \<open>try\<close> under the guard \<open>fallback and fallback != chunk\<close>. Both handlers are
  \<open>except Exception\<close>: an exception that is none leaves the loop.
\<close>

definition insert_chunk_img ::
  "'w remote \<Rightarrow> pystr \<Rightarrow> pystr \<Rightarrow> nat \<Rightarrow> nat \<Rightarrow> pystr \<Rightarrow> 'w state
     \<Rightarrow> (exc + unit) \<times> 'w state"
where
  "insert_chunk_img R material_id page_id idx c_idx chunk st =
     (case sql_query R (InsertChunk material_id page_id c_idx (sql_literal_img chunk)) st of
        (Inr res, st1) \<Rightarrow> (Inr (), emit [Sleep (1 / 10)] st1)
      | (Inl e, st1) \<Rightarrow>
          if \<not> is_exception e then (Inl e, st1)
          else
            (let st2 = emit [Print (MsgChunkFailed idx c_idx e),
                             Print (MsgPreview (str_replace [10] [32] (py_slice chunk 0 200)))]
                         st1;
                 fallback = strip (ascii_ignore chunk)
             in if fallback \<noteq> [] \<and> fallback \<noteq> chunk
                then (case sql_query R
                             (InsertChunk material_id page_id c_idx (sql_literal_img fallback))
                             st2 of
                        (Inr res, st3) \<Rightarrow>
                          (Inr (), emit [Sleep (1 / 10), Print (MsgFallbackOk idx c_idx)] st3)
                      | (Inl fe, st3) \<Rightarrow>
                          if \<not> is_exception fe then (Inl fe, st3)
                          else (Inr (), emit [Print (MsgFallbackFailed idx c_idx fe)] st3))
                else (Inr (), st2)))"

fun insert_chunks_img ::
  "'w remote \<Rightarrow> pystr \<Rightarrow> pystr \<Rightarrow> nat \<Rightarrow> nat \<Rightarrow> pystr list \<Rightarrow> 'w state
     \<Rightarrow> (exc + unit) \<times> 'w state"
where
  "insert_chunks_img R material_id page_id idx c_idx [] st = (Inr (), st)"
| "insert_chunks_img R material_id page_id idx c_idx (chunk # rest) st =
     (case insert_chunk_img R material_id page_id idx c_idx chunk st of
        (Inl e, st1) \<Rightarrow> (Inl e, st1)
      | (Inr u, st1) \<Rightarrow> insert_chunks_img R material_id page_id idx (c_idx + 1) rest st1)"

text \<open>
  \<open>existing_by_page.get(idx) or existing_by_uri.get(image_uri)\<close>: a row is a dictionary
  with keys, hence true, so the second lookup happens only when the first finds nothing.
\<close>

definition lookup_existing ::
  "(int \<rightharpoonup> page_row) \<Rightarrow> (pystr \<rightharpoonup> page_row) \<Rightarrow> nat \<Rightarrow> pystr \<Rightarrow> page_row option"
where
  "lookup_existing by_page by_uri idx uri =
     (case by_page (int idx) of Some r \<Rightarrow> Some r | None \<Rightarrow> by_uri uri)"

text \<open>
  The body of the loop over the images, after the skip: OCR, the page, its old chunks,
  its new chunks. \<open>None\<close> is a run that does not return (\<open>chunk_text\<close> with
  \<open>max_len \<le> 0\<close>).
\<close>

definition reprocess_image ::
  "'w remote \<Rightarrow> config \<Rightarrow> pystr \<Rightarrow> nat \<Rightarrow> pystr \<Rightarrow> 'w state
     \<Rightarrow> ((exc + unit) \<times> 'w state) option"
where
  "reprocess_image R cfg material_id idx image_path st =
     and_then (call_vision R image_path st) (\<lambda>text st1.
     and_then (sql_query R
                 (UpsertPage material_id idx (sql_escape (lit ''file://'' @ image_path))
                    (sql_literal_img text))
                 (emit [Sleep (3 / 10)] st1)) (\<lambda>page_res st2.
     and_then (first_id R page_res, st2) (\<lambda>page_id st3.
     and_then (sql_query R (DeleteChunks page_id) st3) (\<lambda>del_res st4.
       (case chunk_text_img text (chunk_max cfg) (chunk_overlap cfg) of
          None \<Rightarrow> None
        | Some chunks \<Rightarrow>
            Some (insert_chunks_img R material_id page_id idx 1 chunks
                    (emit [Sleep (2 / 10)] st4)))))))"

text \<open>The body of the loop over the images; \<open>n\<close> is the number of images.\<close>

definition process_image ::
  "'w remote \<Rightarrow> config \<Rightarrow> pystr \<Rightarrow> nat \<Rightarrow> (int \<rightharpoonup> page_row) \<Rightarrow> (pystr \<rightharpoonup> page_row)
     \<Rightarrow> nat \<Rightarrow> pystr \<Rightarrow> 'w state \<Rightarrow> ((exc + unit) \<times> 'w state) option"
where
  "process_image R cfg material_id n by_page by_uri idx image_path st =
     (let st0 = emit [Print (MsgOcr idx n (path_name image_path))] st;
          existing = lookup_existing by_page by_uri idx (lit ''file://'' @ image_path)
      in if has_chunks existing \<and> idx \<notin> force_pages cfg
         then Some (Inr (), emit [Print (MsgSkip idx (path_name image_path))] st0)
         else reprocess_image R cfg material_id idx image_path st0)"

fun image_loop ::
  "'w remote \<Rightarrow> config \<Rightarrow> pystr \<Rightarrow> nat \<Rightarrow> (int \<rightharpoonup> page_row) \<Rightarrow> (pystr \<rightharpoonup> page_row)
     \<Rightarrow> nat \<Rightarrow> pystr list \<Rightarrow> 'w state \<Rightarrow> ((exc + unit) \<times> 'w state) option"
where
  "image_loop R cfg material_id n by_page by_uri idx [] st = Some (Inr (), st)"
| "image_loop R cfg material_id n by_page by_uri idx (image_path # rest) st =
     (case process_image R cfg material_id n by_page by_uri idx image_path st of
        None \<Rightarrow> None
      | Some (Inl e, st1) \<Rightarrow> Some (Inl e, st1)
      | Some (Inr u, st1) \<Rightarrow> image_loop R cfg material_id n by_page by_uri (idx + 1) rest st1)"

text \<open>\<open>main\<close>, from the selected images on.\<close>

definition main_img ::
  "'w remote \<Rightarrow> config \<Rightarrow> pystr list \<Rightarrow> 'w state \<Rightarrow> ((exc + unit) \<times> 'w state) option"
where
  "main_img R cfg images st =
     (if images = [] then Some (Inl SystemExit, st)
      else
        (case prepare R cfg (lit ''image'') (length images)
                (emit [Print (MsgImages (length images))] st) of
           (Inl e, st1) \<Rightarrow> Some (Inl e, st1)
         | (Inr (material_id, rows), st1) \<Rightarrow>
             finish (image_loop R cfg material_id (length images) (existing_by_page rows)
                       (existing_by_uri rows) 1 images st1)))"

subsection \<open>adamus-index-pdf.py\<close>

text \<open>
  The loop over \<open>reader.pages\<close>, before anything is asked of the database:
  \<open>page.extract_text() or ""\<close>, stripped, for every page of the document.
\<close>

fun extract_pages ::
  "'w remote \<Rightarrow> nat list \<Rightarrow> 'w state \<Rightarrow> (exc + pystr list) \<times> 'w state"
where
  "extract_pages R [] st = (Inr [], st)"
| "extract_pages R (k # ks) st =
     (case pdf_page R (fst st) k of
        (Inl e, w) \<Rightarrow> (Inl e, (w, snd st @ [Extract k]))
      | (Inr t, w) \<Rightarrow>
          (case extract_pages R ks (w, snd st @ [Extract k]) of
             (Inl e, st1) \<Rightarrow> (Inl e, st1)
           | (Inr ts, st1) \<Rightarrow>
               (Inr (strip (case t of None \<Rightarrow> [] | Some x \<Rightarrow> x) # ts), st1)))"

text \<open>The loop over the chunks of a page: no \<open>try\<close>, an exception leaves the loop.\<close>

fun insert_chunks_pdf ::
  "'w remote \<Rightarrow> pystr \<Rightarrow> pystr \<Rightarrow> nat \<Rightarrow> pystr list \<Rightarrow> 'w state \<Rightarrow> (exc + unit) \<times> 'w state"
where
  "insert_chunks_pdf R material_id page_id c_idx [] st = (Inr (), st)"
| "insert_chunks_pdf R material_id page_id c_idx (chunk # rest) st =
     (case sql_query R (InsertChunk material_id page_id c_idx (sql_literal_pdf chunk)) st of
        (Inl e, st1) \<Rightarrow> (Inl e, st1)
      | (Inr res, st1) \<Rightarrow>
          insert_chunks_pdf R material_id page_id (c_idx + 1) rest (emit [Sleep (1 / 10)] st1))"

text \<open>The body of the loop over the pages, after the skip, and the body.\<close>

definition reprocess_pdf_page ::
  "'w remote \<Rightarrow> config \<Rightarrow> pystr \<Rightarrow> nat \<Rightarrow> pystr \<Rightarrow> 'w state
     \<Rightarrow> ((exc + unit) \<times> 'w state) option"
where
  "reprocess_pdf_page R cfg material_id idx text st =
     and_then (sql_query R
                 (UpsertPageText material_id idx (sql_escape (source_uri cfg))
                    (sql_literal_pdf text)) st) (\<lambda>page_res st1.
     and_then (first_id R page_res, st1) (\<lambda>page_id st2.
     and_then (sql_query R (DeleteChunks page_id) st2) (\<lambda>del_res st3.
       (case chunk_text_pdf text 1200 200 of
          None \<Rightarrow> None
        | Some chunks \<Rightarrow>
            Some (insert_chunks_pdf R material_id page_id 1 chunks
                    (emit [Sleep (2 / 10)] st3))))))"

definition process_pdf_page ::
  "'w remote \<Rightarrow> config \<Rightarrow> pystr \<Rightarrow> (int \<rightharpoonup> page_row) \<Rightarrow> nat \<Rightarrow> pystr \<Rightarrow> 'w state
     \<Rightarrow> ((exc + unit) \<times> 'w state) option"
where
  "process_pdf_page R cfg material_id by_page idx text st =
     (if has_chunks (by_page (int idx)) then Some (Inr (), st)
      else reprocess_pdf_page R cfg material_id idx text st)"

fun pdf_loop ::
  "'w remote \<Rightarrow> config \<Rightarrow> pystr \<Rightarrow> (int \<rightharpoonup> page_row) \<Rightarrow> nat \<Rightarrow> pystr list \<Rightarrow> 'w state
     \<Rightarrow> ((exc + unit) \<times> 'w state) option"
where
  "pdf_loop R cfg material_id by_page idx [] st = Some (Inr (), st)"
| "pdf_loop R cfg material_id by_page idx (text # rest) st =
     (case process_pdf_page R cfg material_id by_page idx text st of
        None \<Rightarrow> None
      | Some (Inl e, st1) \<Rightarrow> Some (Inl e, st1)
      | Some (Inr u, st1) \<Rightarrow> pdf_loop R cfg material_id by_page (idx + 1) rest st1)"

text \<open>\<open>main\<close>, from the opened document on; \<open>npages\<close> is \<open>len(reader.pages)\<close>.\<close>

definition main_pdf ::
  "'w remote \<Rightarrow> config \<Rightarrow> nat \<Rightarrow> 'w state \<Rightarrow> ((exc + unit) \<times> 'w state) option"
where
  "main_pdf R cfg npages st =
     (case extract_pages R [1 ..< Suc npages] st of
        (Inl e, st0) \<Rightarrow> Some (Inl e, st0)
      | (Inr page_texts, st0) \<Rightarrow>
          if \<not> (\<exists>t \<in> set page_texts. t \<noteq> []) then Some (Inl SystemExit, st0)
          else
            (case prepare R cfg (lit ''pdf'') (length page_texts) st0 of
               (Inl e, st1) \<Rightarrow> Some (Inl e, st1)
             | (Inr (material_id, rows), st1) \<Rightarrow>
                 finish (pdf_loop R cfg material_id (existing_by_page rows) 1 page_texts
                           st1)))"

subsection \<open>A remote for the examples\<close>

text \<open>
  The state counts the SQL requests, and \<open>reply w q\<close> answers request number \<open>w\<close>.
  A response body is the id it carries (the empty body is the empty list of rows); the
  stored pages are the given rows. OCR and PDF extraction never fail.
\<close>

definition test_remote ::
  "(nat \<Rightarrow> stmt \<Rightarrow> exc + pystr) \<Rightarrow> (pystr \<Rightarrow> pystr option) \<Rightarrow> (nat \<Rightarrow> pystr option)
     \<Rightarrow> page_row list \<Rightarrow> nat remote"
where
  "test_remote reply ocr pdf rows =
     \<lparr> sql_api = (\<lambda>w q. (reply w q, Suc w)),
       vision_api = (\<lambda>w i. (Inr (ocr i), w)),
       pdf_page = (\<lambda>w k. (Inr (pdf k), w)),
       json_ids = (\<lambda>body. Inr (if body = [] then [] else [body])),
       json_pages = (\<lambda>body. Inr rows) \<rparr>"

definition test_config :: config where
  "test_config =
     \<lparr> subject_name = lit ''Bio'', subject_description = lit ''H4'',
       chapter_opt = None, paragraph_opt = None, title = lit ''T'',
       source_uri = lit ''local://x'', force_pages = {}, chunk_max = 1200,
       chunk_overlap = 200 \<rparr>"

section \<open>Properties of sanitize\_text and sql\_literal\<close>

lemma two_pass_newlines:
  "str_replace [13] [10] (str_replace [13, 10] [10] s) = normalize_newlines s"
  by (induction s rule: normalize_newlines.induct) auto

lemma normalize_newlines_no_cr: "13 \<notin> set (normalize_newlines s)"
  by (induction s rule: normalize_newlines.induct) auto

lemma sanitize_text_eq:
  "sanitize_text (Some s)
     = filter (\<lambda>c. \<not> in_ctrl_class c) (normalize_newlines (utf8_ignore s))"
  by (simp add: sanitize_text_def two_pass_newlines utf8_ignore_def)

text \<open>
  C7, amended. For every input, absent or not, \<open>sanitize_text\<close> returns a string, the
  empty one for an absent or empty input; every \<open>\r\n\<close> and every other \<open>\r\<close> has become
  \<open>\n\<close>, and of the control characters below \<open>0x20\<close> only tab and newline are left.
  (DEL, \<open>0x7F\<close>, is not in the character class of the source and stays.)
\<close>

theorem sanitize_text_c0:
  "sanitize_text None = [] \<and> sanitize_text (Some []) = []
   \<and> sanitize_text (Some s)
       = filter (\<lambda>c. \<not> in_ctrl_class c) (normalize_newlines (utf8_ignore s))
   \<and> 13 \<notin> set (sanitize_text v)
   \<and> (\<forall>c \<in> set (sanitize_text v). c < 32 \<longrightarrow> c = 9 \<or> c = 10)"
proof -
  have a: "sanitize_text None = []" "sanitize_text (Some []) = []"
    by (simp_all add: sanitize_text_def)
  have b: "13 \<notin> set (sanitize_text v)"
  proof (cases v)
    case None
    then show ?thesis by (simp add: a)
  next
    case (Some s)
    then show ?thesis using normalize_newlines_no_cr by (simp add: sanitize_text_eq)
  qed
  have c: "\<forall>c \<in> set (sanitize_text v). c < 32 \<longrightarrow> c = 9 \<or> c = 10"
  proof (cases v)
    case None
    then show ?thesis by (simp add: a)
  next
    case (Some s)
    have "\<And>c. \<not> in_ctrl_class c \<Longrightarrow> c < 32 \<Longrightarrow> c = 9 \<or> c = 10 \<or> c = 13"
      unfolding in_ctrl_class_def by arith
    with Some show ?thesis
      using normalize_newlines_no_cr by (auto simp: sanitize_text_eq)
  qed
  from a b c sanitize_text_eq show ?thesis by blast
qed

theorem sanitize_text_c0_witness:
  "sanitize_text (Some [65, 13, 10, 7, 13, 9, 127]) = [65, 10, 10, 9, 127]
   \<and> 13 \<notin> set (sanitize_text (Some [65, 13, 10, 7, 13, 9, 127]))
   \<and> (9::nat) \<in> set (sanitize_text (Some [65, 13, 10, 7, 13, 9, 127])) \<and> (9::nat) < 32"
  using sanitize_text_c0 [of "[65, 13, 10, 7, 13, 9, 127]" "Some [65, 13, 10, 7, 13, 9, 127]"]
  by (simp add: sanitize_text_def utf8_ignore_def is_surrogate_def in_ctrl_class_def)

text \<open>
  C7 as stated fails: DEL is an ASCII control character other than newline and tab, and
  \<open>sanitize_text\<close> returns it unchanged.
\<close>

theorem sanitize_text_keeps_del:
  "ascii_control 127 \<and> 127 \<noteq> (10::nat) \<and> 127 \<noteq> (9::nat)
   \<and> sanitize_text (Some [127]) = [127]"
  by (simp add: ascii_control_def sanitize_text_def utf8_ignore_def is_surrogate_def
      in_ctrl_class_def)

text \<open>
  The loop of the image script ends only at a tag that does not occur in the sanitized
  content, so its literal is delimited by a fresh tag for every input.
\<close>

lemma tag_loop_fresh: "\<not> contains (tag_loop safe tag counter) safe"
  by (induction safe tag counter rule: tag_loop.induct) (simp split: if_splits)

lemma sql_literal_img_fresh:
  "\<exists>tag. sql_literal_img v = tag @ sanitize_text (Some v) @ tag
     \<and> \<not> sublist tag (sanitize_text (Some v))"
  unfolding sql_literal_img_def Let_def
  using tag_loop_fresh contains_sublist by blast

text \<open>
  C1. The PDF script escalates twice and then stops looking: for a content that holds all
  three of its tags, the literal is delimited by \<open>$adamus_chunk$\<close>, which occurs in the
  content.
\<close>

theorem sql_literal_pdf_collision:
  "sql_literal_pdf (lit ''$adamus$$adamus_text$$adamus_chunk$'')
     = lit ''$adamus_chunk$'' @ lit ''$adamus$$adamus_text$$adamus_chunk$''
         @ lit ''$adamus_chunk$''
   \<and> contains (lit ''$adamus_chunk$'') (lit ''$adamus$$adamus_text$$adamus_chunk$'')"
  by (simp add: sql_literal_pdf_def sql_tag_pdf_def lit_def)

section \<open>Properties of chunk\_text\<close>

lemma length_strip: "length (strip s) \<le> length s"
proof -
  have "length (strip s) \<le> length (dropWhile is_space s)"
    unfolding strip_def using length_dropWhile_le [of is_space "rev (dropWhile is_space s)"]
    by simp
  also have "\<dots> \<le> length s" by (rule length_dropWhile_le)
  finally show ?thesis .
qed

lemma strip_all_space: "\<forall>c \<in> set s. is_space c \<Longrightarrow> strip s = []"
proof -
  assume "\<forall>c \<in> set s. is_space c"
  then have d: "dropWhile is_space s = []" by (induction s) auto
  show ?thesis unfolding strip_def d by simp
qed

lemma strip_id: "s \<noteq> [] \<Longrightarrow> \<not> is_space (hd s) \<Longrightarrow> \<not> is_space (last s) \<Longrightarrow> strip s = s"
proof -
  assume ne: "s \<noteq> []" and h: "\<not> is_space (hd s)" and l: "\<not> is_space (last s)"
  from ne h have a: "dropWhile is_space s = s" by (cases s) auto
  from ne l have "dropWhile is_space (rev s) = rev s"
    by (cases "rev s") (auto simp: last_rev [symmetric])
  with a show ?thesis by (simp add: strip_def)
qed

lemma py_slice_take_drop:
  "0 \<le> start \<Longrightarrow> start \<le> e \<Longrightarrow> e \<le> int (length p) \<Longrightarrow>
   py_slice p start e = take (nat (e - start)) (drop (nat start) p)"
proof -
  assume a: "0 \<le> start" "start \<le> e" "e \<le> int (length p)"
  then have "slice_bound p e = nat e" "slice_bound p start = nat start"
    by (simp_all add: slice_bound_def)
  moreover from a have "nat e - nat start = nat (e - start)" by linarith
  ultimately show ?thesis by (simp add: py_slice_def)
qed

lemma length_py_slice:
  "0 \<le> start \<Longrightarrow> start \<le> e \<Longrightarrow> e \<le> int (length p) \<Longrightarrow>
   int (length (py_slice p start e)) = e - start"
  by (simp add: py_slice_take_drop)

lemma slice_window_good:
  assumes "0 \<le> start" "start < int (length p)" "1 \<le> max_len"
  shows "py_slice p start (min (start + max_len) (int (length p))) \<noteq> []"
    and "int (length (py_slice p start (min (start + max_len) (int (length p))))) \<le> max_len"
proof -
  let ?e = "min (start + max_len) (int (length p))"
  from assms have e: "start < ?e" "?e \<le> int (length p)" by simp_all
  with assms(1) have len: "int (length (py_slice p start ?e)) = ?e - start"
    by (intro length_py_slice) simp_all
  with e show "py_slice p start ?e \<noteq> []" by auto
  from len show "int (length (py_slice p start ?e)) \<le> max_len" by simp
qed

lemma next_start_advances:
  "start < int (length p) \<Longrightarrow> 1 \<le> max_len \<Longrightarrow> start < next_start p max_len overlap start"
  by (auto simp: next_start_def Let_def)

lemma hard_split_returns:
  assumes ml: "1 \<le> max_len"
  shows "0 \<le> start \<Longrightarrow>
    \<exists>ws. hard_split p max_len overlap start chunks = Some (chunks @ ws)
       \<and> (\<forall>w \<in> set ws. w \<noteq> [] \<and> int (length w) \<le> max_len)"
proof (induction "nat (int (length p) - start)" arbitrary: start chunks rule: less_induct)
  case less
  show ?case
  proof (cases "start < int (length p)")
    case False
    then have "hard_split p max_len overlap start chunks = Some (chunks @ [])"
      by (subst hard_split.simps) simp
    then show ?thesis by fastforce
  next
    case True
    let ?w = "py_slice p start (min (start + max_len) (int (length p)))"
    let ?s = "next_start p max_len overlap start"
    from True ml have adv: "start < ?s" by (rule next_start_advances)
    with True have "nat (int (length p) - ?s) < nat (int (length p) - start)" by linarith
    moreover from adv less.prems have "0 \<le> ?s" by simp
    ultimately obtain ws where
      ws: "hard_split p max_len overlap ?s (chunks @ [?w]) = Some ((chunks @ [?w]) @ ws)"
        "\<forall>w \<in> set ws. w \<noteq> [] \<and> int (length w) \<le> max_len"
      using less.hyps by blast
    from True ws(1) have "hard_split p max_len overlap start chunks = Some (chunks @ (?w # ws))"
      by (subst hard_split.simps) simp
    moreover have "\<forall>w \<in> set (?w # ws). w \<noteq> [] \<and> int (length w) \<le> max_len"
      using ws(2) slice_window_good [OF less.prems True ml] by simp
    ultimately show ?thesis by blast
  qed
qed

lemma chunk_paragraphs_returns:
  assumes ml: "1 \<le> max_len"
  shows "\<forall>w \<in> set chunks. good max_len w \<Longrightarrow> int (length current) \<le> max_len \<Longrightarrow>
    \<exists>chunks' current'. chunk_paragraphs max_len overlap ps (chunks, current)
        = Some (chunks', current')
      \<and> (\<forall>w \<in> set chunks'. good max_len w) \<and> int (length current') \<le> max_len"
proof (induction ps arbitrary: chunks current)
  case Nil
  then show ?case by simp
next
  case (Cons p ps)
  define c1 where "c1 = (if current \<noteq> [] then chunks @ [current] else chunks)"
  have c1: "\<forall>w \<in> set c1. good max_len w"
    using Cons.prems by (simp add: good_def c1_def)
  show ?case
  proof (cases "int (length current) + int (length p) + 1 \<le> max_len")
    case True
    then have eq: "chunk_paragraphs max_len overlap (p # ps) (chunks, current)
        = chunk_paragraphs max_len overlap ps (chunks, strip (current @ [10] @ p))"
      by simp
    have "int (length (strip (current @ [10] @ p))) \<le> int (length (current @ [10] @ p))"
      using length_strip [of "current @ [10] @ p"] by linarith
    with True have "int (length (strip (current @ [10] @ p))) \<le> max_len" by simp
    from Cons.IH [OF Cons.prems(1) this] show ?thesis unfolding eq .
  next
    case False
    show ?thesis
    proof (cases "int (length p) \<le> max_len")
      case True
      with False have eq: "chunk_paragraphs max_len overlap (p # ps) (chunks, current)
          = chunk_paragraphs max_len overlap ps (c1, p)"
        unfolding c1_def by (simp only: chunk_paragraphs.simps Let_def if_False if_True)
      from Cons.IH [OF c1 True] show ?thesis unfolding eq .
    next
      case big: False
      obtain ws where ws: "hard_split p max_len overlap 0 c1 = Some (c1 @ ws)"
        "\<forall>w \<in> set ws. w \<noteq> [] \<and> int (length w) \<le> max_len"
        using hard_split_returns [OF ml, of 0 p overlap c1] by blast
      from False big ws(1)
      have eq: "chunk_paragraphs max_len overlap (p # ps) (chunks, current)
          = chunk_paragraphs max_len overlap ps (c1 @ ws, [])"
        unfolding c1_def by (simp only: chunk_paragraphs.simps Let_def if_False option.case)
      from ws(2) have "\<forall>w \<in> set ws. good max_len w" unfolding good_def .
      with c1 have c2: "\<forall>w \<in> set (c1 @ ws). good max_len w"
        unfolding set_append ball_Un by (rule conjI)
      have "int (length ([]::pystr)) \<le> max_len" using ml by simp
      from Cons.IH [OF c2 this] show ?thesis unfolding eq .
    qed
  qed
qed

lemma chunk_pieces_returns:
  assumes ml: "1 \<le> max_len"
  shows "\<exists>cs. chunk_pieces pieces max_len overlap = Some cs
           \<and> (\<forall>w \<in> set cs. w \<noteq> [] \<and> int (length w) \<le> max_len)"
proof -
  have "int (length ([]::pystr)) \<le> max_len" using ml by simp
  with chunk_paragraphs_returns [OF ml, of "[]" "[]" overlap "paragraphs_of pieces"]
  obtain chunks' current' where
    r: "chunk_paragraphs max_len overlap (paragraphs_of pieces) ([], []) = Some (chunks', current')"
      "\<forall>w \<in> set chunks'. good max_len w" "int (length current') \<le> max_len"
    by auto
  then show ?thesis by (auto simp: chunk_pieces_def good_def)
qed

lemma chunk_text_returns:
  assumes ml: "1 \<le> max_len"
  shows "\<exists>cs. chunk_text_img text max_len overlap = Some cs
           \<and> (\<forall>w \<in> set cs. w \<noteq> [] \<and> int (length w) \<le> max_len)"
    and "\<exists>cs. chunk_text_pdf text max_len overlap = Some cs
           \<and> (\<forall>w \<in> set cs. w \<noteq> [] \<and> int (length w) \<le> max_len)"
  using chunk_pieces_returns [OF ml]
  by (auto simp: chunk_text_img_def chunk_text_pdf_def)

text \<open>One turn of the hard-split loop, and its end, as conditional equations.\<close>

lemma hard_split_step:
  "start < int (length p) \<Longrightarrow>
   hard_split p max_len overlap start chunks
     = hard_split p max_len overlap (next_start p max_len overlap start)
         (chunks @ [py_slice p start (min (start + max_len) (int (length p)))])"
  by (subst hard_split.simps) simp

lemma hard_split_stop:
  "\<not> start < int (length p) \<Longrightarrow> hard_split p max_len overlap start chunks = Some chunks"
  by (subst hard_split.simps) simp

lemmas chunk_eval =
  chunk_text_img_def chunk_text_pdf_def chunk_pieces_def paragraphs_of_def strip_def
  is_space_def is_linebreak_def hard_split_step hard_split_stop next_start_def
  py_slice_def slice_bound_def Let_def

text \<open>
  C4. For every text, every \<open>max_len \<ge> 1\<close> and every \<open>overlap \<ge> 0\<close>, \<open>chunk_text\<close>
  returns, and no chunk of its result is longer than \<open>max_len\<close>; in both scripts.
\<close>

theorem chunk_text_max_len:
  "1 \<le> max_len \<Longrightarrow> 0 \<le> overlap \<Longrightarrow>
   (\<exists>cs. chunk_text_img t max_len overlap = Some cs
      \<and> (\<forall>c \<in> set cs. int (length c) \<le> max_len))
   \<and> (\<exists>cs. chunk_text_pdf t max_len overlap = Some cs
      \<and> (\<forall>c \<in> set cs. int (length c) \<le> max_len))"
  using chunk_text_returns [of max_len t overlap] by blast

lemma ev1: "chunk_text_img [65, 66, 67, 68, 69, 70, 71] 4 1
     = Some [[65, 66, 67, 68], [68, 69, 70, 71], [71]]"
  by (simp add: chunk_eval)

lemma ev2: "chunk_text_pdf [65, 66, 10, 67, 68, 69, 70, 71] 4 1
     = Some [[65, 66], [67, 68, 69, 70], [70, 71], [71]]"
  by (simp add: chunk_eval)

theorem chunk_text_max_len_witness:
  "(1::int) \<le> 4 \<and> (0::int) \<le> 1
   \<and> chunk_text_img [65, 66, 67, 68, 69, 70, 71] 4 1
        = Some [[65, 66, 67, 68], [68, 69, 70, 71], [71]]
   \<and> (\<exists>cs. chunk_text_img [65, 66, 67, 68, 69, 70, 71] 4 1 = Some cs
      \<and> (\<forall>c \<in> set cs. int (length c) \<le> 4))"
  using chunk_text_max_len [of 4 1 "[65, 66, 67, 68, 69, 70, 71]"] ev1 by simp


text \<open>
  C9. For every text and every overlap, \<open>chunk_text\<close> returns when \<open>max_len \<ge> 1\<close>, in
  both scripts; in the hard-split loop the next start is beyond the current one whenever
  the loop body runs.
\<close>

theorem chunk_text_terminates:
  "1 \<le> max_len \<Longrightarrow>
   (\<exists>cs. chunk_text_img t max_len overlap = Some cs)
   \<and> (\<exists>cs. chunk_text_pdf t max_len overlap = Some cs)
   \<and> (\<forall>p start. start < int (length p) \<longrightarrow> start < next_start p max_len overlap start)"
  using chunk_text_returns [of max_len t overlap] next_start_advances [of _ _ max_len overlap]
  by blast

theorem chunk_text_terminates_witness:
  "(1::int) \<le> 4
   \<and> chunk_text_pdf [65, 66, 10, 67, 68, 69, 70, 71] 4 1
        = Some [[65, 66], [67, 68, 69, 70], [70, 71], [71]]
   \<and> (\<exists>cs. chunk_text_pdf [65, 66, 10, 67, 68, 69, 70, 71] 4 1 = Some cs)
   \<and> (0::int) < int (length [67::nat, 68, 69, 70, 71])
   \<and> (0::int) < next_start [67, 68, 69, 70, 71] 4 1 0"
  using chunk_text_terminates [of 4 "[65, 66, 10, 67, 68, 69, 70, 71]" 1] ev2
  by (simp add: next_start_def)

text \<open>
  C10. For every text and every \<open>max_len \<ge> 1\<close>, \<open>chunk_text\<close> returns and every chunk
  of its result is a non-empty string; in both scripts.
\<close>

theorem chunk_text_nonempty:
  "1 \<le> max_len \<Longrightarrow>
   (\<exists>cs. chunk_text_img t max_len overlap = Some cs \<and> (\<forall>c \<in> set cs. c \<noteq> []))
   \<and> (\<exists>cs. chunk_text_pdf t max_len overlap = Some cs \<and> (\<forall>c \<in> set cs. c \<noteq> []))"
  using chunk_text_returns [of max_len t overlap] by blast

lemma ev3: "chunk_text_img [32, 65, 10, 10, 10, 32, 10, 10, 66, 67, 68, 9] 2 0
     = Some [[65], [66, 67], [68]]"
  by (simp add: chunk_eval)

theorem chunk_text_nonempty_witness:
  "(1::int) \<le> 2
   \<and> chunk_text_img [32, 65, 10, 10, 10, 32, 10, 10, 66, 67, 68, 9] 2 0
        = Some [[65], [66, 67], [68]]
   \<and> (\<exists>cs. chunk_text_img [32, 65, 10, 10, 10, 32, 10, 10, 66, 67, 68, 9] 2 0 = Some cs
        \<and> (\<forall>c \<in> set cs. c \<noteq> []))"
  using chunk_text_nonempty [of 2 "[32, 65, 10, 10, 10, 32, 10, 10, 66, 67, 68, 9]" 0] ev3
  by simp

lemma split_blank_chars:
  "piece \<in> set (split_blank cur s) \<Longrightarrow> set piece \<subseteq> set cur \<union> set s"
proof (induction cur s arbitrary: piece rule: split_blank.induct)
  case (3 cur c d cs)
  show ?case
  proof (cases "c = 10 \<and> d = 10")
    case True
    with 3 have "piece = cur \<or> piece \<in> set (split_blank [] (dropWhile (\<lambda>x. x = 10) cs))"
      by simp
    then show ?thesis
    proof
      assume "piece = cur"
      then show ?thesis by auto
    next
      assume "piece \<in> set (split_blank [] (dropWhile (\<lambda>x. x = 10) cs))"
      with 3(1) True have "set piece \<subseteq> set (dropWhile (\<lambda>x. x = 10) cs)" by fastforce
      then show ?thesis using set_dropWhileD by fastforce
    qed
  next
    case False
    with 3 have "piece \<in> set (split_blank (cur @ [c]) (d # cs))" by auto
    with 3(2) False have "set piece \<subseteq> set (cur @ [c]) \<union> set (d # cs)" by blast
    then show ?thesis by auto
  qed
qed auto

lemma splitlines_chars:
  "piece \<in> set (splitlines cur s) \<Longrightarrow> set piece \<subseteq> set cur \<union> set s"
  by (induction cur s arbitrary: piece rule: splitlines.induct)
     (fastforce split: if_splits)+

lemma paragraphs_of_space:
  assumes "\<forall>piece \<in> set pieces. \<forall>c \<in> set piece. is_space c"
  shows "paragraphs_of pieces = []"
proof -
  from assms have "\<forall>piece \<in> set pieces. strip piece = []"
    using strip_all_space by blast
  then show ?thesis by (simp add: paragraphs_of_def)
qed

lemma chunk_pieces_space:
  "\<forall>piece \<in> set pieces. \<forall>c \<in> set piece. is_space c \<Longrightarrow>
   chunk_pieces pieces max_len overlap = Some []"
  by (simp add: chunk_pieces_def paragraphs_of_space)

text \<open>
  C8. For a text that is empty or has only whitespace characters, \<open>chunk_text\<close> returns
  the empty sequence, for any \<open>max_len\<close> and \<open>overlap\<close>; in both scripts.
\<close>

theorem chunk_text_blank:
  "t = [] \<or> (\<forall>c \<in> set t. is_space c) \<Longrightarrow>
   chunk_text_img t max_len overlap = Some [] \<and> chunk_text_pdf t max_len overlap = Some []"
proof -
  assume "t = [] \<or> (\<forall>c \<in> set t. is_space c)"
  then have sp: "\<forall>c \<in> set t. is_space c" by auto
  have "\<forall>piece \<in> set (split_blank [] t). \<forall>c \<in> set piece. is_space c"
    using split_blank_chars [of _ "[]" t] sp by fastforce
  moreover have "\<forall>piece \<in> set (splitlines [] t). \<forall>c \<in> set piece. is_space c"
    using splitlines_chars [of _ "[]" t] sp by fastforce
  ultimately show ?thesis
    by (simp add: chunk_text_img_def chunk_text_pdf_def chunk_pieces_space)
qed

theorem chunk_text_blank_witness:
  "([32, 10, 10, 9, 13, 160] = ([]::pystr) \<or> (\<forall>c \<in> set [32, 10, 10, 9, 13, 160]. is_space c))
   \<and> chunk_text_img [32, 10, 10, 9, 13, 160] 0 0 = Some []
   \<and> chunk_text_pdf [32, 10, 10, 9, 13, 160] 0 0 = Some []"
  using chunk_text_blank [of "[32, 10, 10, 9, 13, 160]" 0 0]
  by (simp add: is_space_def)

lemma split_blank_single: "10 \<notin> set s \<Longrightarrow> split_blank cur s = [cur @ s]"
  by (induction cur s rule: split_blank.induct) auto

lemma is_linebreak_cr: "is_linebreak 13"
  by (simp add: is_linebreak_def)

lemma splitlines_single:
  "\<forall>c \<in> set s. \<not> is_linebreak c \<Longrightarrow> s \<noteq> [] \<Longrightarrow> splitlines cur s = [cur @ s]"
  by (induction cur s rule: splitlines.induct) (auto simp: is_linebreak_cr)

lemma hard_split_3000:
  assumes "length p = 3000"
  shows "hard_split p 1200 200 0 cs
    = Some (cs @ [take 1200 p, take 1200 (drop 1000 p), drop 2000 p, drop 2800 p])"
  using assms
  by (simp add: hard_split_step hard_split_stop next_start_def py_slice_def slice_bound_def)

lemma chunk_pieces_3000:
  assumes "length p = 3000" "\<not> is_space (hd p)" "\<not> is_space (last p)"
  shows "chunk_pieces [p] 1200 200
    = Some [take 1200 p, take 1200 (drop 1000 p), drop 2000 p, drop 2800 p]"
proof -
  from assms have "p \<noteq> []" by auto
  with assms have "strip p = p" by (simp add: strip_id)
  with \<open>p \<noteq> []\<close> have "paragraphs_of [p] = [p]" by (simp add: paragraphs_of_def)
  with assms(1) show ?thesis
    by (simp add: chunk_pieces_def hard_split_3000)
qed

lemma chunk_text_3000:
  assumes "length p = 3000" "\<forall>c \<in> set p. \<not> is_linebreak c"
    "\<not> is_space (hd p)" "\<not> is_space (last p)"
  shows "chunk_text_img p 1200 200
      = Some [take 1200 p, take 1200 (drop 1000 p), drop 2000 p, drop 2800 p]"
    and "chunk_text_pdf p 1200 200
      = Some [take 1200 p, take 1200 (drop 1000 p), drop 2000 p, drop 2800 p]"
proof -
  from assms(1) have ne: "p \<noteq> []" by auto
  have "is_linebreak 10" by (simp add: is_linebreak_def)
  with assms(2) have "10 \<notin> set p" by blast
  then have "split_blank [] p = [p]" by (simp add: split_blank_single)
  with ne show "chunk_text_img p 1200 200
      = Some [take 1200 p, take 1200 (drop 1000 p), drop 2000 p, drop 2800 p]"
    by (simp add: chunk_text_img_def chunk_pieces_3000 [OF assms(1,3,4)])
  from assms(2) ne have "splitlines [] p = [p]" by (simp add: splitlines_single)
  with ne show "chunk_text_pdf p 1200 200
      = Some [take 1200 p, take 1200 (drop 1000 p), drop 2000 p, drop 2800 p]"
    by (simp add: chunk_text_pdf_def chunk_pieces_3000 [OF assms(1,3,4)])
qed

text \<open>
  C2, amended. For a single paragraph of exactly 3000 characters (no line break inside,
  no whitespace at either end), \<open>max_len=1200\<close> and \<open>overlap=200\<close>, \<open>chunk_text\<close> yields
  exactly four hard-split windows, which start at the offsets 0, 1000, 2000 and 2800 and
  are 1200, 1200, 1000 and 200 characters long: after the window that reaches the end of
  the paragraph, the step-back rule starts one more window at \<open>end - overlap\<close>.
\<close>

theorem chunk_text_3000_windows:
  assumes "length p = 3000" "\<forall>c \<in> set p. \<not> is_linebreak c"
    "\<not> is_space (hd p)" "\<not> is_space (last p)"
  shows "chunk_text_img p 1200 200
      = Some [py_slice p 0 1200, py_slice p 1000 2200, py_slice p 2000 3000,
              py_slice p 2800 3000]
    \<and> chunk_text_pdf p 1200 200 = chunk_text_img p 1200 200
    \<and> map length [py_slice p 0 1200, py_slice p 1000 2200, py_slice p 2000 3000,
              py_slice p 2800 3000] = [1200, 1200, 1000, 200]"
  using assms(1) chunk_text_3000 [OF assms]
  by (simp add: py_slice_def slice_bound_def)

lemma replicate_3000_ok:
  "length (replicate 3000 (97::nat)) = 3000"
  "\<forall>c \<in> set (replicate 3000 (97::nat)). \<not> is_linebreak c"
  "\<not> is_space (hd (replicate 3000 (97::nat)))"
  "\<not> is_space (last (replicate 3000 (97::nat)))"
  by (simp_all add: is_linebreak_def is_space_def)

theorem chunk_text_3000_windows_witness:
  "length (replicate 3000 (97::nat)) = 3000
   \<and> set (replicate 3000 (97::nat)) = {97} \<and> \<not> is_linebreak 97
   \<and> \<not> is_space (hd (replicate 3000 (97::nat)))
   \<and> \<not> is_space (last (replicate 3000 (97::nat)))
   \<and> chunk_text_img (replicate 3000 97) 1200 200
       = Some [replicate 1200 97, replicate 1200 97, replicate 1000 97, replicate 200 97]
   \<and> chunk_text_pdf (replicate 3000 97) 1200 200 = chunk_text_img (replicate 3000 97) 1200 200"
  using chunk_text_3000_windows [OF replicate_3000_ok] replicate_3000_ok
  by (simp add: py_slice_def slice_bound_def is_linebreak_def)

text \<open>
  C2 as stated fails: on 3000 times the letter \<open>a\<close> the result has a fourth window, the
  last 200 characters, and so is not the three windows at 0, 1000 and 2000.
\<close>

theorem chunk_text_3000_four_windows:
  "chunk_text_img (replicate 3000 97) 1200 200
     = Some [replicate 1200 97, replicate 1200 97, replicate 1000 97, replicate 200 97]
   \<and> chunk_text_pdf (replicate 3000 97) 1200 200
     = Some [replicate 1200 97, replicate 1200 97, replicate 1000 97, replicate 200 97]
   \<and> chunk_text_img (replicate 3000 97) 1200 200
     \<noteq> Some [py_slice (replicate 3000 97) 0 1200, py_slice (replicate 3000 97) 1000 2200,
             py_slice (replicate 3000 97) 2000 3000]"
  using chunk_text_3000 [OF replicate_3000_ok] by simp

section \<open>Properties of sql\_query\<close>

lemma world_before_shift:
  "world_before R q (snd (sql_api R w q)) i = world_before R q w (Suc i)"
  by (induction i) simp_all

lemma outcome_shift: "outcome R q (snd (sql_api R w q)) i = outcome R q w (Suc i)"
  unfolding outcome_def world_before_shift ..

lemma sql_attempts_stop:
  assumes "a = default_retries \<or> \<not> asks_retry (fst (sql_api R w q))"
  shows "sql_attempts R q (a # as) (w, tr)
    = (returned (fst (sql_api R w q)), (snd (sql_api R w q), tr @ [Http q]))"
proof (cases "sql_api R w q")
  case (Pair r w1)
  show ?thesis
  proof (cases r)
    case (Inr body)
    with Pair show ?thesis by (simp add: returned_def)
  next
    case (Inl e)
    with Pair assms have "a = default_retries \<or> \<not> retryable_exc e"
      by (simp add: asks_retry_def)
    with Pair Inl show ?thesis
      by (cases e) (auto simp: returned_def retryable_exc_def)
  qed
qed

lemma sql_attempts_go_on:
  assumes "a < default_retries" "asks_retry (fst (sql_api R w q))"
  shows "sql_attempts R q (a # as) (w, tr)
    = sql_attempts R q as
        (snd (sql_api R w q), tr @ [Http q, Sleep (default_backoff * of_nat (a + 1))])"
proof (cases "sql_api R w q")
  case (Pair r w1)
  with assms(2) obtain code where "r = Inl (HTTPError code)" "retryable code"
    by (cases r; cases "projl r")
       (auto simp: asks_retry_def retryable_exc_def split: exc.splits)
  with Pair assms(1) show ?thesis by simp
qed

lemma sql_attempts_run:
  "a + k \<le> default_retries \<Longrightarrow> \<forall>i<k. asks_retry (outcome R q w i) \<Longrightarrow>
   a + k = default_retries \<or> \<not> asks_retry (outcome R q w k) \<Longrightarrow>
   sql_attempts R q [a ..< default_retries + 1] (w, tr)
     = (returned (outcome R q w k),
        (world_before R q w (Suc k),
         tr @ concat (map (\<lambda>i. [Http q, Sleep (default_backoff * of_nat (i + 1))])
                [a ..< a + k]) @ [Http q]))"
proof (induction k arbitrary: a w tr)
  case 0
  then have up: "[a ..< default_retries + 1] = a # [Suc a ..< default_retries + 1]"
    by (simp add: upt_conv_Cons)
  from 0 have "a = default_retries \<or> \<not> asks_retry (fst (sql_api R w q))"
    by (simp add: outcome_def)
  from sql_attempts_stop [OF this] show ?case
    unfolding up by (simp add: outcome_def)
next
  case (Suc k)
  then have lt: "a < default_retries" by simp
  then have up: "[a ..< default_retries + 1] = a # [Suc a ..< default_retries + 1]"
    by (simp add: upt_conv_Cons)
  have up2: "[a ..< a + Suc k] = a # [Suc a ..< Suc a + k]"
    by (simp add: upt_conv_Cons)
  from Suc.prems(2) have first: "asks_retry (fst (sql_api R w q))"
    by (auto simp: outcome_def dest: spec [of _ 0])
  let ?w = "snd (sql_api R w q)"
  let ?tr = "tr @ [Http q, Sleep (default_backoff * of_nat (a + 1))]"
  have a1: "Suc a + k \<le> default_retries" using Suc.prems(1) by simp
  have a2: "\<forall>i<k. asks_retry (outcome R q ?w i)"
    using Suc.prems(2) by (auto simp: outcome_shift)
  have a3: "Suc a + k = default_retries \<or> \<not> asks_retry (outcome R q ?w k)"
    using Suc.prems(3) by (simp add: outcome_shift)
  from Suc.IH [OF a1 a2 a3, of ?tr]
  show ?case
    unfolding up up2 sql_attempts_go_on [OF lt first]
    by (simp add: outcome_shift world_before_shift)
qed

lemma stopping_attempt:
  "\<exists>k\<le>default_retries. (\<forall>i<k. asks_retry (outcome R q w i))
      \<and> (k = default_retries \<or> \<not> asks_retry (outcome R q w k))"
proof (cases "\<forall>i<default_retries. asks_retry (outcome R q w i)")
  case True
  then show ?thesis by blast
next
  case False
  then obtain j where j: "j < default_retries" "\<not> asks_retry (outcome R q w j)" by blast
  define k where "k = (LEAST i. \<not> asks_retry (outcome R q w i))"
  have k1: "\<not> asks_retry (outcome R q w k)"
    unfolding k_def using j(2) by (rule LeastI)
  have k2: "\<forall>i<k. asks_retry (outcome R q w i)"
    unfolding k_def using not_less_Least by blast
  have "k \<le> j" unfolding k_def using j(2) by (rule Least_le)
  with j(1) have "k \<le> default_retries" by simp
  with k1 k2 show ?thesis by blast
qed

text \<open>
  C6, amended. \<open>sql_query\<close>, with the retry count 5 and the backoff 1.5 of every call in
  the scripts, repeats the request only after a failure that is an \<open>HTTPError\<close> with one
  of the statuses 401, 429, 500, 502, 503, 504, and at most 5 times. Let request number
  \<open>k\<close> be the first whose outcome is something else (a response, a timeout, a connection
  error, another status), or the sixth request if there is none before: there is always
  such a \<open>k\<close>, the call makes the requests 0 to \<open>k\<close> and no more, sleeps
  \<open>1.5 * (i + 1)\<close> after request \<open>i\<close> for every \<open>i\<close> below \<open>k\<close>, and returns the
  response or propagates the failure of request \<open>k\<close>.
\<close>

theorem sql_query_retries:
  "(\<exists>k\<le>default_retries. (\<forall>i<k. asks_retry (outcome R q w i))
      \<and> (k = default_retries \<or> \<not> asks_retry (outcome R q w k)))
   \<and> (\<forall>k. k \<le> default_retries \<and> (\<forall>i<k. asks_retry (outcome R q w i))
          \<and> (k = default_retries \<or> \<not> asks_retry (outcome R q w k)) \<longrightarrow>
        sql_query R q (w, tr)
          = (returned (outcome R q w k),
             (world_before R q w (Suc k),
              tr @ concat (map (\<lambda>i. [Http q, Sleep (default_backoff * of_nat (i + 1))])
                     [0 ..< k]) @ [Http q])))"
proof (intro conjI allI impI)
  show "\<exists>k\<le>default_retries. (\<forall>i<k. asks_retry (outcome R q w i))
      \<and> (k = default_retries \<or> \<not> asks_retry (outcome R q w k))"
    by (rule stopping_attempt)
next
  fix k
  assume h: "k \<le> default_retries \<and> (\<forall>i<k. asks_retry (outcome R q w i))
          \<and> (k = default_retries \<or> \<not> asks_retry (outcome R q w k))"
  then have "0 + k \<le> default_retries" "\<forall>i<k. asks_retry (outcome R q w i)"
    "0 + k = default_retries \<or> \<not> asks_retry (outcome R q w k)" by simp_all
  from sql_attempts_run [OF this, of tr]
  show "sql_query R q (w, tr)
          = (returned (outcome R q w k),
             (world_before R q w (Suc k),
              tr @ concat (map (\<lambda>i. [Http q, Sleep (default_backoff * of_nat (i + 1))])
                     [0 ..< k]) @ [Http q]))"
    by (simp add: sql_query_def)
qed


theorem sql_query_retries_witness:
  "(1::nat) \<le> default_retries
   \<and> asks_retry (outcome
        (test_remote (\<lambda>w q. if w = 0 then Inl (HTTPError 503)
                             else if w = 1 then Inl TimeoutError else Inr [105])
           Map.empty Map.empty []) (DeleteChunks [112]) 0 0)
   \<and> \<not> asks_retry (outcome
        (test_remote (\<lambda>w q. if w = 0 then Inl (HTTPError 503)
                             else if w = 1 then Inl TimeoutError else Inr [105])
           Map.empty Map.empty []) (DeleteChunks [112]) 0 1)
   \<and> sql_query
        (test_remote (\<lambda>w q. if w = 0 then Inl (HTTPError 503)
                             else if w = 1 then Inl TimeoutError else Inr [105])
           Map.empty Map.empty []) (DeleteChunks [112]) (0, [])
       = (Inl TimeoutError,
          (2, [Http (DeleteChunks [112]), Sleep (3 / 2), Http (DeleteChunks [112])]))
   \<and> sql_query (test_remote (\<lambda>w q. Inl (HTTPError 429)) Map.empty Map.empty [])
        (DeleteChunks [112]) (0, [])
       = (Inl (HTTPError 429),
          (6, [Http (DeleteChunks [112]), Sleep (3 / 2), Http (DeleteChunks [112]), Sleep 3,
               Http (DeleteChunks [112]), Sleep (9 / 2), Http (DeleteChunks [112]), Sleep 6,
               Http (DeleteChunks [112]), Sleep (15 / 2), Http (DeleteChunks [112])]))"
proof -
  let ?R = "test_remote (\<lambda>w q. if w = 0 then Inl (HTTPError 503)
                             else if w = 1 then Inl TimeoutError else Inr [105])
           Map.empty Map.empty []"
  let ?S = "test_remote (\<lambda>w q. Inl (HTTPError 429)) Map.empty Map.empty []"
  let ?q = "DeleteChunks [112]"
  have wb: "\<And>i. world_before ?R ?q 0 i = i" "\<And>i. world_before ?S ?q 0 i = i"
    subgoal for i by (induction i) (simp_all add: test_remote_def)
    subgoal for i by (induction i) (simp_all add: test_remote_def)
    done
  have o0: "asks_retry (outcome ?R ?q 0 0)"
    by (simp add: outcome_def test_remote_def asks_retry_def retryable_exc_def retryable_def)
  have o1: "\<not> asks_retry (outcome ?R ?q 0 1)"
    by (simp add: outcome_def test_remote_def asks_retry_def retryable_exc_def)
  have oS: "\<And>i. asks_retry (outcome ?S ?q 0 i)"
    by (simp add: outcome_def test_remote_def asks_retry_def retryable_exc_def retryable_def)
  have le: "(1::nat) \<le> default_retries" by (simp add: default_retries_def)
  from o0 have all1: "\<forall>i<1. asks_retry (outcome ?R ?q 0 i)" by simp
  from sql_query_retries [of ?R ?q 0 "[]"] le all1 o1
  have r: "sql_query ?R ?q (0, [])
      = (returned (outcome ?R ?q 0 1),
         (world_before ?R ?q 0 (Suc 1),
          [] @ concat (map (\<lambda>i. [Http ?q, Sleep (default_backoff * of_nat (i + 1))])
                 [0 ..< 1]) @ [Http ?q]))"
    by blast
  from sql_query_retries [of ?S ?q 0 "[]"] oS
  have s: "sql_query ?S ?q (0, [])
      = (returned (outcome ?S ?q 0 default_retries),
         (world_before ?S ?q 0 (Suc default_retries),
          [] @ concat (map (\<lambda>i. [Http ?q, Sleep (default_backoff * of_nat (i + 1))])
                 [0 ..< default_retries]) @ [Http ?q]))"
    by blast
  have r': "sql_query ?R ?q (0, [])
       = (Inl TimeoutError, (2, [Http ?q, Sleep (3 / 2), Http ?q]))"
    unfolding r wb
    by (simp add: outcome_def wb returned_def test_remote_def default_backoff_def)
  have s': "sql_query ?S ?q (0, [])
       = (Inl (HTTPError 429),
          (6, [Http ?q, Sleep (3 / 2), Http ?q, Sleep 3, Http ?q, Sleep (9 / 2), Http ?q,
               Sleep 6, Http ?q, Sleep (15 / 2), Http ?q]))"
    unfolding s wb
    by (simp add: outcome_def wb returned_def test_remote_def default_backoff_def
        default_retries_def upt_conv_Cons)
  from le o0 o1 r' s' show ?thesis by (intro conjI)
qed

text \<open>
  C6 as stated fails: a timeout and a 501 on the first request are propagated after that
  one request, although the second request would have been answered; a 503 is retried.
\<close>

theorem sql_query_no_retry_on_timeout:
  "sql_query
     (test_remote (\<lambda>w q. if w = 0 then Inl TimeoutError else Inr [105]) Map.empty Map.empty [])
     (DeleteChunks [112]) (0, [])
     = (Inl TimeoutError, (1, [Http (DeleteChunks [112])]))
   \<and> sql_query
     (test_remote (\<lambda>w q. if w = 0 then Inl (HTTPError 501) else Inr [105]) Map.empty
        Map.empty [])
     (DeleteChunks [112]) (0, [])
     = (Inl (HTTPError 501), (1, [Http (DeleteChunks [112])]))
   \<and> sql_query
     (test_remote (\<lambda>w q. if w = 0 then Inl (HTTPError 503) else Inr [105]) Map.empty
        Map.empty [])
     (DeleteChunks [112]) (0, [])
     = (Inr (Some [105]),
        (2, [Http (DeleteChunks [112]), Sleep (3 / 2), Http (DeleteChunks [112])]))"
  by (simp add: sql_query_def test_remote_def retryable_def upt_conv_Cons default_retries_def
      default_backoff_def)

section \<open>Properties of the drivers\<close>

text \<open>
  A loop over a list that is split in two is the loop over the first part followed by the
  loop over the second; a run whose page is stored with chunks goes from the pages before
  it straight to the pages after it.
\<close>


lemma image_loop_append:
  "image_loop R cfg mid n bp bu idx (pre @ xs) st
   = (case image_loop R cfg mid n bp bu idx pre st of
        None \<Rightarrow> None
      | Some (Inl e, s) \<Rightarrow> Some (Inl e, s)
      | Some (Inr u, s) \<Rightarrow> image_loop R cfg mid n bp bu (idx + length pre) xs s)"
proof (induction pre arbitrary: idx st)
  case Nil
  then show ?case by simp
next
  case (Cons x pre)
  show ?case
  proof (cases "process_image R cfg mid n bp bu idx x st")
    case None
    then show ?thesis by simp
  next
    case (Some r)
    obtain res s where r: "r = (res, s)" by (cases r)
    show ?thesis
    proof (cases res)
      case (Inl e)
      with Some r show ?thesis by simp
    next
      case (Inr u)
      with Some r Cons.IH [of "idx + 1" s] show ?thesis
        by (auto split: option.splits prod.splits sum.splits)
    qed
  qed
qed

lemma pdf_loop_append:
  "pdf_loop R cfg mid bp idx (pre @ xs) st
   = (case pdf_loop R cfg mid bp idx pre st of
        None \<Rightarrow> None
      | Some (Inl e, s) \<Rightarrow> Some (Inl e, s)
      | Some (Inr u, s) \<Rightarrow> pdf_loop R cfg mid bp (idx + length pre) xs s)"
proof (induction pre arbitrary: idx st)
  case Nil
  then show ?case by simp
next
  case (Cons x pre)
  show ?case
  proof (cases "process_pdf_page R cfg mid bp idx x st")
    case None
    then show ?thesis by simp
  next
    case (Some r)
    obtain res s where r: "r = (res, s)" by (cases r)
    show ?thesis
    proof (cases res)
      case (Inl e)
      with Some r show ?thesis by simp
    next
      case (Inr u)
      with Some r Cons.IH [of "idx + 1" s] show ?thesis
        by (auto split: option.splits prod.splits sum.splits)
    qed
  qed
qed

lemma process_image_skip:
  "has_chunks (lookup_existing bp bu idx (lit ''file://'' @ img)) \<Longrightarrow>
   idx \<notin> force_pages cfg \<Longrightarrow>
   process_image R cfg mid n bp bu idx img st
     = Some (Inr (), emit [Print (MsgOcr idx n (path_name img)),
                           Print (MsgSkip idx (path_name img))] st)"
  by (simp add: process_image_def Let_def emit_def)

lemma process_pdf_page_skip:
  "has_chunks (bp (int idx)) \<Longrightarrow> process_pdf_page R cfg mid bp idx t st = Some (Inr (), st)"
  by (simp add: process_pdf_page_def)

lemma main_img_skip:
  assumes p: "prepare R cfg (lit ''image'') (length (pre @ img # post))
       (emit [Print (MsgImages (length (pre @ img # post)))] st) = (Inr (mid, rows), s1)"
    and l: "image_loop R cfg mid (length (pre @ img # post)) (existing_by_page rows)
       (existing_by_uri rows) 1 pre s1 = Some (Inr (), s2)"
    and h: "has_chunks (lookup_existing (existing_by_page rows) (existing_by_uri rows)
       (Suc (length pre)) (lit ''file://'' @ img))"
    and f: "Suc (length pre) \<notin> force_pages cfg"
  shows "main_img R cfg (pre @ img # post) st
    = finish (image_loop R cfg mid (length (pre @ img # post)) (existing_by_page rows)
        (existing_by_uri rows) (Suc (Suc (length pre))) post
        (emit [Print (MsgOcr (Suc (length pre)) (length (pre @ img # post)) (path_name img)),
               Print (MsgSkip (Suc (length pre)) (path_name img))] s2))"
proof -
  have "image_loop R cfg mid (length (pre @ img # post)) (existing_by_page rows)
       (existing_by_uri rows) 1 (pre @ img # post) s1
    = image_loop R cfg mid (length (pre @ img # post)) (existing_by_page rows)
        (existing_by_uri rows) (Suc (Suc (length pre))) post
        (emit [Print (MsgOcr (Suc (length pre)) (length (pre @ img # post)) (path_name img)),
               Print (MsgSkip (Suc (length pre)) (path_name img))] s2)"
    unfolding image_loop_append l
    by (simp add: process_image_skip [OF h f])
  moreover have "pre @ img # post \<noteq> []" by simp
  ultimately show ?thesis
    unfolding main_img_def using p by (simp del: length_append)
qed

lemma main_img_abort_before:
  assumes p: "prepare R cfg (lit ''image'') (length (pre @ img # post))
       (emit [Print (MsgImages (length (pre @ img # post)))] st) = (Inr (mid, rows), s1)"
    and l: "image_loop R cfg mid (length (pre @ img # post)) (existing_by_page rows)
       (existing_by_uri rows) 1 pre s1 = Some (Inl e, s2)"
  shows "main_img R cfg (pre @ img # post) st = Some (Inl e, s2)"
proof -
  have "image_loop R cfg mid (length (pre @ img # post)) (existing_by_page rows)
       (existing_by_uri rows) 1 (pre @ img # post) s1 = Some (Inl e, s2)"
    unfolding image_loop_append l by simp
  moreover have "pre @ img # post \<noteq> []" by simp
  ultimately show ?thesis
    unfolding main_img_def using p by (simp add: finish_def del: length_append)
qed

lemma main_pdf_skip:
  assumes x: "extract_pages R [1 ..< Suc npages] st = (Inr (pre @ t # post), s0)"
    and ne: "\<exists>x \<in> set (pre @ t # post). x \<noteq> []"
    and p: "prepare R cfg (lit ''pdf'') (length (pre @ t # post)) s0 = (Inr (mid, rows), s1)"
    and l: "pdf_loop R cfg mid (existing_by_page rows) 1 pre s1 = Some (Inr (), s2)"
    and h: "has_chunks (existing_by_page rows (int (Suc (length pre))))"
  shows "main_pdf R cfg npages st
    = finish (pdf_loop R cfg mid (existing_by_page rows) (Suc (Suc (length pre))) post s2)"
proof -
  have "pdf_loop R cfg mid (existing_by_page rows) 1 (pre @ t # post) s1
    = pdf_loop R cfg mid (existing_by_page rows) (Suc (Suc (length pre))) post s2"
    unfolding pdf_loop_append l by (simp add: process_pdf_page_skip [of "existing_by_page rows" "Suc (length pre)", OF h])
  with x ne p show ?thesis
    unfolding main_pdf_def by (simp del: length_append set_append upt_Suc)
qed


lemma extract_pages_trace:
  "extract_pages R ks st = (Inr ts, st1) \<Longrightarrow>
   snd st1 = snd st @ map Extract ks \<and> length ts = length ks"
proof (induction ks arbitrary: st ts st1)
  case Nil
  then show ?case by auto
next
  case (Cons k ks)
  obtain r w where p: "pdf_page R (fst st) k = (r, w)" by (cases "pdf_page R (fst st) k")
  show ?case
  proof (cases r)
    case (Inl e)
    with p Cons.prems show ?thesis by simp
  next
    case (Inr t)
    obtain r2 st2 where e: "extract_pages R ks (w, snd st @ [Extract k]) = (r2, st2)"
      by (cases "extract_pages R ks (w, snd st @ [Extract k])")
    show ?thesis
    proof (cases r2)
      case (Inl e2)
      with p Inr e Cons.prems show ?thesis by simp
    next
      case (Inr ts2)
      with p \<open>r = Inr t\<close> e Cons.prems
      have "st1 = st2" "ts = strip (case t of None \<Rightarrow> [] | Some x \<Rightarrow> x) # ts2"
        by simp_all
      with Cons.IH [of "(w, snd st @ [Extract k])" ts2 st2] e Inr show ?thesis by simp
    qed
  qed
qed

lemma sql_attempts_grows: "prefix (snd st) (snd (snd (sql_attempts R q as st)))"
proof (induction as arbitrary: st)
  case Nil
  then show ?case by simp
next
  case (Cons a as)
  show ?case
  proof (cases "a < default_retries \<and> asks_retry (fst (sql_api R (fst st) q))")
    case True
    then have "sql_attempts R q (a # as) st
      = sql_attempts R q as
          (snd (sql_api R (fst st) q),
           snd st @ [Http q, Sleep (default_backoff * of_nat (a + 1))])"
      using sql_attempts_go_on [of a R "fst st" q as "snd st"] by simp
    moreover have "prefix (snd st) (snd st @ [Http q, Sleep (default_backoff * of_nat (a + 1))])"
      by simp
    ultimately show ?thesis
      using Cons.IH [of "(snd (sql_api R (fst st) q),
           snd st @ [Http q, Sleep (default_backoff * of_nat (a + 1))])"]
      by (metis prefix_order.trans snd_conv)
  next
    case False
    then consider "a = default_retries \<or> \<not> asks_retry (fst (sql_api R (fst st) q))"
      | "default_retries < a" by linarith
    then show ?thesis
    proof cases
      case 1
      from sql_attempts_stop [OF this, of as "snd st"] show ?thesis by simp
    next
      case 2
      obtain r w where p: "sql_api R (fst st) q = (r, w)" by (cases "sql_api R (fst st) q")
      with 2 show ?thesis
        by (cases r; cases "projl r") (auto split: exc.splits)
    qed
  qed
qed

lemma sql_query_grows: "sql_query R q st = (r, st1) \<Longrightarrow> prefix (snd st) (snd st1)"
  using sql_attempts_grows [of st R q "[0 ..< default_retries + 1]"]
  by (simp add: sql_query_def)

lemma resolve_subject_grows:
  "resolve_subject R cfg st = (r, st1) \<Longrightarrow> prefix (snd st) (snd st1)"
  unfolding resolve_subject_def
  by (auto split: prod.splits sum.splits dest: sql_query_grows)

lemma resolve_material_grows:
  assumes "resolve_material R cfg ty n sid st = (r, st1)"
  shows "prefix (snd st) (snd st1)"
proof -
  obtain r1 s1 where q1: "sql_query R (SelectMaterial (sql_escape (source_uri cfg))) st = (r1, s1)"
    by (cases "sql_query R (SelectMaterial (sql_escape (source_uri cfg))) st")
  then have g1: "prefix (snd st) (snd s1)" by (rule sql_query_grows)
  show ?thesis
  proof (cases "st1 = s1")
    case True
    with g1 show ?thesis by simp
  next
    case False
    with assms q1 obtain q r2 where "sql_query R q s1 = (r2, st1)"
      unfolding resolve_material_def
      by (auto split: prod.splits sum.splits list.splits)
    then have "prefix (snd s1) (snd st1)" by (rule sql_query_grows)
    with g1 show ?thesis using prefix_order.trans by metis
  qed
qed

lemma fetch_pages_grows:
  "fetch_pages R mid st = (r, st1) \<Longrightarrow> prefix (snd st) (snd st1)"
  unfolding fetch_pages_def
  by (auto split: prod.splits sum.splits dest: sql_query_grows)

lemma prepare_grows:
  assumes "prepare R cfg ty n st = (r, st3)"
  shows "prefix (snd st) (snd st3)"
proof -
  obtain r1 s1 where a: "resolve_subject R cfg st = (r1, s1)"
    by (cases "resolve_subject R cfg st")
  then have g1: "prefix (snd st) (snd s1)" by (rule resolve_subject_grows)
  show ?thesis
  proof (cases r1)
    case (Inl e)
    with assms a g1 show ?thesis by (simp add: prepare_def)
  next
    case (Inr sid)
    obtain r2 s2 where b: "resolve_material R cfg ty n sid s1 = (r2, s2)"
      by (cases "resolve_material R cfg ty n sid s1")
    then have g2: "prefix (snd s1) (snd s2)" by (rule resolve_material_grows)
    show ?thesis
    proof (cases r2)
      case (Inl e)
      with assms a Inr b have "st3 = s2" by (simp add: prepare_def)
      with g1 g2 show ?thesis using prefix_order.trans by metis
    next
      case mid: (Inr mid)
      obtain r3 s3 where c: "fetch_pages R mid s2 = (r3, s3)" by (cases "fetch_pages R mid s2")
      then have g3: "prefix (snd s2) (snd s3)" by (rule fetch_pages_grows)
      from assms a Inr b mid c have "st3 = s3"
        by (auto simp: prepare_def split: sum.splits)
      with g1 g2 g3 show ?thesis using prefix_order.trans by metis
    qed
  qed
qed

lemma emit_grows: "prefix (snd st) (snd (emit es st))"
  by (simp add: emit_def)

lemma insert_chunks_pdf_grows:
  "insert_chunks_pdf R mid pid c chunks st = (r, st1) \<Longrightarrow> prefix (snd st) (snd st1)"
proof (induction chunks arbitrary: c st)
  case Nil
  then show ?case by simp
next
  case (Cons chunk rest)
  obtain r2 st2 where q: "sql_query R (InsertChunk mid pid c (sql_literal_pdf chunk)) st
      = (r2, st2)"
    by (cases "sql_query R (InsertChunk mid pid c (sql_literal_pdf chunk)) st")
  then have g: "prefix (snd st) (snd st2)" by (rule sql_query_grows)
  show ?case
  proof (cases r2)
    case (Inl e)
    with q Cons.prems g show ?thesis by simp
  next
    case (Inr res)
    with q Cons.prems have "insert_chunks_pdf R mid pid (c + 1) rest (emit [Sleep (1 / 10)] st2)
        = (r, st1)" by simp
    from Cons.IH [OF this] have "prefix (snd (emit [Sleep (1 / 10)] st2)) (snd st1)" .
    with g emit_grows [of st2] show ?thesis using prefix_order.trans by metis
  qed
qed

lemma and_then_cases:
  "and_then r f = Some (res, st1) \<Longrightarrow>
   (\<exists>e. r = (Inl e, st1) \<and> res = Inl e) \<or> (\<exists>a s. r = (Inr a, s) \<and> f a s = Some (res, st1))"
  by (auto simp: and_then_def split: prod.splits sum.splits)

lemma reprocess_pdf_page_grows:
  assumes "reprocess_pdf_page R cfg mid idx t st = Some (res, st1)"
  shows "prefix (snd st) (snd st1)"
proof -
  let ?q1 = "sql_query R
      (UpsertPageText mid idx (sql_escape (source_uri cfg)) (sql_literal_pdf t)) st"
  obtain r1 s1 where q1: "?q1 = (r1, s1)" by (cases ?q1)
  then have g1: "prefix (snd st) (snd s1)" by (rule sql_query_grows)
  show ?thesis
  proof (cases r1)
    case (Inl e)
    with assms q1 g1 show ?thesis by (simp add: reprocess_pdf_page_def and_then_def)
  next
    case r1: (Inr page_res)
    show ?thesis
    proof (cases "first_id R page_res")
      case (Inl e)
      with assms q1 r1 g1 show ?thesis
        by (simp add: reprocess_pdf_page_def and_then_def)
    next
      case pid: (Inr page_id)
      obtain r2 s2 where q2: "sql_query R (DeleteChunks page_id) s1 = (r2, s2)"
        by (cases "sql_query R (DeleteChunks page_id) s1")
      then have g2: "prefix (snd s1) (snd s2)" by (rule sql_query_grows)
      show ?thesis
      proof (cases r2)
        case (Inl e)
        with assms q1 r1 pid q2 have "st1 = s2"
          by (simp add: reprocess_pdf_page_def and_then_def)
        with g1 g2 show ?thesis using prefix_order.trans by metis
      next
        case (Inr del_res)
        with assms q1 r1 pid q2 obtain chunks where
          "insert_chunks_pdf R mid page_id 1 chunks (emit [Sleep (2 / 10)] s2) = (res, st1)"
          by (auto simp: reprocess_pdf_page_def and_then_def split: option.splits)
        then have "prefix (snd (emit [Sleep (2 / 10)] s2)) (snd st1)"
          by (rule insert_chunks_pdf_grows)
        with g1 g2 emit_grows [of s2] show ?thesis using prefix_order.trans by metis
      qed
    qed
  qed
qed

lemma process_pdf_page_grows:
  "process_pdf_page R cfg mid bp idx t st = Some (res, st1) \<Longrightarrow> prefix (snd st) (snd st1)"
  by (auto simp: process_pdf_page_def split: if_splits dest: reprocess_pdf_page_grows)

lemma pdf_loop_grows:
  "pdf_loop R cfg mid bp idx ts st = Some (res, st1) \<Longrightarrow> prefix (snd st) (snd st1)"
proof (induction ts arbitrary: idx st)
  case Nil
  then show ?case by simp
next
  case (Cons t ts)
  from Cons.prems obtain r2 s2 where
    p: "process_pdf_page R cfg mid bp idx t st = Some (r2, s2)"
    by (auto split: option.splits)
  then have g: "prefix (snd st) (snd s2)" by (rule process_pdf_page_grows)
  show ?case
  proof (cases r2)
    case (Inl e)
    with p Cons.prems g show ?thesis by simp
  next
    case (Inr u)
    with p Cons.prems have "pdf_loop R cfg mid bp (idx + 1) ts s2 = Some (res, st1)"
      by simp
    from Cons.IH [OF this] g show ?thesis using prefix_order.trans by metis
  qed
qed

lemma finish_grows:
  "finish r = Some (res, st1) \<Longrightarrow> \<exists>res' s. r = Some (res', s) \<and> prefix (snd s) (snd st1)"
  by (auto simp: finish_def emit_def split: option.splits prod.splits sum.splits)

lemma main_pdf_extracts_all:
  assumes ex: "extract_pages R [1 ..< Suc npages] st = (Inr ts, st0)"
    and run: "main_pdf R cfg npages st = Some (res, st1)"
  shows "prefix (snd st @ map Extract [1 ..< Suc npages]) (snd st1)"
proof -
  from extract_pages_trace [OF ex]
  have t0: "snd st0 = snd st @ map Extract [1 ..< Suc npages]" by simp
  have "prefix (snd st0) (snd st1)"
  proof (cases "\<exists>t \<in> set ts. t \<noteq> []")
    case False
    with run [unfolded main_pdf_def ex] show ?thesis by simp
  next
    case nonempty: True
    obtain r1 s1 where p: "prepare R cfg (lit ''pdf'') (length ts) st0 = (r1, s1)"
      by (cases "prepare R cfg (lit ''pdf'') (length ts) st0")
    then have g1: "prefix (snd st0) (snd s1)" by (rule prepare_grows)
    show ?thesis
    proof (cases r1)
      case (Inl e)
      with run [unfolded main_pdf_def ex] nonempty p g1 show ?thesis by simp
    next
      case (Inr mr)
      obtain mid rows where mr: "mr = (mid, rows)" by (cases mr)
      with run [unfolded main_pdf_def ex] nonempty p Inr
      have "finish (pdf_loop R cfg mid (existing_by_page rows) 1 ts s1) = Some (res, st1)"
        by simp
      from finish_grows [OF this] obtain res' s where
        l: "pdf_loop R cfg mid (existing_by_page rows) 1 ts s1 = Some (res', s)"
        and g3: "prefix (snd s) (snd st1)" by blast
      from l have "prefix (snd s1) (snd s)" by (rule pdf_loop_grows)
      with g1 g3 show ?thesis using prefix_order.trans by metis
    qed
  qed
  with t0 show ?thesis by simp
qed

text \<open>The definitions a concrete run is computed with.\<close>

lemmas driver_eval =
  main_pdf_def main_img_def and_then_def emit_def finish_def prepare_def resolve_subject_def
  resolve_material_def fetch_pages_def first_id_def load_ids_def load_pages_def
  existing_by_page_def existing_by_uri_def has_chunks_def lookup_existing_def
  process_pdf_page_def reprocess_pdf_page_def process_image_def reprocess_image_def
  insert_chunk_img_def call_vision_def ascii_ignore_def path_name_def is_exception_def
  sql_query_def default_retries_def default_backoff_def upt_conv_Cons retryable_def
  test_remote_def test_config_def sql_escape_def lit_def
  sql_literal_pdf_def sql_tag_pdf_def sql_literal_img_def sanitize_text_def
  utf8_ignore_def is_surrogate_def in_ctrl_class_def strip_def is_space_def

text \<open>
  C5, amended. Take any run of the image script over the images \<open>pre @ img # post\<close> in
  which the subject, the material and the stored pages \<open>rows\<close> have been fetched and the
  images before \<open>img\<close> have been dealt with. If the row that \<open>rows\<close> holds for the page
  of \<open>img\<close> (the last one with its page number or, when there is none, the last one with
  its image URI) has a chunk count above 0, and the index of the page is not forced, then
  the run goes on with the images after \<open>img\<close> from the same state of the world, having
  added nothing to the trace but the two messages of the page, which show the file name:
  no OCR call, no page upsert, no deletion and no insertion of a chunk is made for the
  page. (When an image before it raises, the run ends there and the page is never
  reached.) In the PDF script the same holds of the database requests, by page number
  only: the loop steps over the page and leaves the state unchanged. But the PDF script
  extracts the text of every page of the document, the stored ones too, before it sends
  its first request: whatever the run does after the extraction, its trace begins with
  an extraction of each of the pages 1 to \<open>npages\<close>.
\<close>

theorem skip_done_page:
  "(prepare R cfg (lit ''image'') (length (pre @ img # post))
        (emit [Print (MsgImages (length (pre @ img # post)))] st) = (Inr (mid, rows), s1)
      \<and> image_loop R cfg mid (length (pre @ img # post)) (existing_by_page rows)
          (existing_by_uri rows) 1 pre s1 = Some (Inr (), s2)
      \<and> has_chunks (lookup_existing (existing_by_page rows) (existing_by_uri rows)
          (Suc (length pre)) (lit ''file://'' @ img))
      \<and> Suc (length pre) \<notin> force_pages cfg \<longrightarrow>
    main_img R cfg (pre @ img # post) st
      = finish (image_loop R cfg mid (length (pre @ img # post)) (existing_by_page rows)
          (existing_by_uri rows) (Suc (Suc (length pre))) post
          (emit [Print (MsgOcr (Suc (length pre)) (length (pre @ img # post)) (path_name img)),
                 Print (MsgSkip (Suc (length pre)) (path_name img))] s2)))
   \<and> (prepare R cfg (lit ''image'') (length (pre @ img # post))
        (emit [Print (MsgImages (length (pre @ img # post)))] st) = (Inr (mid, rows), s1)
      \<and> image_loop R cfg mid (length (pre @ img # post)) (existing_by_page rows)
          (existing_by_uri rows) 1 pre s1 = Some (Inl e, s2) \<longrightarrow>
    main_img R cfg (pre @ img # post) st = Some (Inl e, s2))
   \<and> (extract_pages R [1 ..< Suc npages] st = (Inr (pre_t @ t # post_t), s0)
      \<and> (\<exists>x \<in> set (pre_t @ t # post_t). x \<noteq> [])
      \<and> prepare R cfg (lit ''pdf'') (length (pre_t @ t # post_t)) s0 = (Inr (mid, rows), s1)
      \<and> pdf_loop R cfg mid (existing_by_page rows) 1 pre_t s1 = Some (Inr (), s2)
      \<and> has_chunks (existing_by_page rows (int (Suc (length pre_t)))) \<longrightarrow>
    main_pdf R cfg npages st
      = finish (pdf_loop R cfg mid (existing_by_page rows) (Suc (Suc (length pre_t))) post_t s2))
   \<and> (extract_pages R [1 ..< Suc npages] st = (Inr ts, s0)
      \<and> main_pdf R cfg npages st = Some (res, st1) \<longrightarrow>
    length ts = npages \<and> prefix (snd st @ map Extract [1 ..< Suc npages]) (snd st1))"
proof (intro conjI impI)
  assume "prepare R cfg (lit ''image'') (length (pre @ img # post))
        (emit [Print (MsgImages (length (pre @ img # post)))] st) = (Inr (mid, rows), s1)
      \<and> image_loop R cfg mid (length (pre @ img # post)) (existing_by_page rows)
          (existing_by_uri rows) 1 pre s1 = Some (Inr (), s2)
      \<and> has_chunks (lookup_existing (existing_by_page rows) (existing_by_uri rows)
          (Suc (length pre)) (lit ''file://'' @ img))
      \<and> Suc (length pre) \<notin> force_pages cfg"
  then show "main_img R cfg (pre @ img # post) st
      = finish (image_loop R cfg mid (length (pre @ img # post)) (existing_by_page rows)
          (existing_by_uri rows) (Suc (Suc (length pre))) post
          (emit [Print (MsgOcr (Suc (length pre)) (length (pre @ img # post)) (path_name img)),
                 Print (MsgSkip (Suc (length pre)) (path_name img))] s2))"
    using main_img_skip by blast
next
  assume "prepare R cfg (lit ''image'') (length (pre @ img # post))
        (emit [Print (MsgImages (length (pre @ img # post)))] st) = (Inr (mid, rows), s1)
      \<and> image_loop R cfg mid (length (pre @ img # post)) (existing_by_page rows)
          (existing_by_uri rows) 1 pre s1 = Some (Inl e, s2)"
  then show "main_img R cfg (pre @ img # post) st = Some (Inl e, s2)"
    using main_img_abort_before by blast
next
  assume "extract_pages R [1 ..< Suc npages] st = (Inr (pre_t @ t # post_t), s0)
      \<and> (\<exists>x \<in> set (pre_t @ t # post_t). x \<noteq> [])
      \<and> prepare R cfg (lit ''pdf'') (length (pre_t @ t # post_t)) s0 = (Inr (mid, rows), s1)
      \<and> pdf_loop R cfg mid (existing_by_page rows) 1 pre_t s1 = Some (Inr (), s2)
      \<and> has_chunks (existing_by_page rows (int (Suc (length pre_t))))"
  then show "main_pdf R cfg npages st
      = finish (pdf_loop R cfg mid (existing_by_page rows) (Suc (Suc (length pre_t))) post_t s2)"
    using main_pdf_skip by blast
next
  assume a: "extract_pages R [1 ..< Suc npages] st = (Inr ts, s0)
      \<and> main_pdf R cfg npages st = Some (res, st1)"
  then show "length ts = npages"
    using extract_pages_trace [of R "[1 ..< Suc npages]" st ts s0] by simp
  from a show "prefix (snd st @ map Extract [1 ..< Suc npages]) (snd st1)"
    using main_pdf_extracts_all by blast
qed

text \<open>
  Two images, the first stored under its page number, the second under another page
  number but with its own URI: both are skipped. A run that fails at the first image
  never reaches the second. A document of two pages whose second page is stored: both
  pages are extracted, the first is indexed, the second is stepped over.
\<close>


theorem skip_done_page_witness:
  "main_img
      (test_remote (\<lambda>w q. Inr [109]) (\<lambda>i. None) (\<lambda>k. None)
         [\<lparr>page_no = 1, image_uri = None, chunk_count = 2\<rparr>,
          \<lparr>page_no = 7, image_uri = Some (lit ''file://d/a''), chunk_count = 3\<rparr>])
      test_config [lit ''d/b'', lit ''d/a''] (0, [])
     = Some (Inr (), (3,
         [Print (MsgImages 2), Http (UpsertSubject (lit ''Bio'') (lit ''H4'')),
          Http (SelectMaterial (lit ''local://x'')), Http (SelectPages [109]),
          Print (MsgOcr 1 2 (lit ''b'')), Print (MsgSkip 1 (lit ''b'')),
          Print (MsgOcr 2 2 (lit ''a'')), Print (MsgSkip 2 (lit ''a'')),
          Print MsgDone]))
   \<and> existing_by_page
        [\<lparr>page_no = 1, image_uri = None, chunk_count = 2\<rparr>,
         \<lparr>page_no = 7, image_uri = Some (lit ''file://d/a''), chunk_count = 3\<rparr>] 2 = None
   \<and> existing_by_uri
        [\<lparr>page_no = 1, image_uri = None, chunk_count = 2\<rparr>,
         \<lparr>page_no = 7, image_uri = Some (lit ''file://d/a''), chunk_count = 3\<rparr>]
        (lit ''file://d/a'')
      = Some \<lparr>page_no = 7, image_uri = Some (lit ''file://d/a''), chunk_count = 3\<rparr>
   \<and> main_img
      (test_remote (\<lambda>w q. case q of UpsertPage a b c d \<Rightarrow> Inl (HTTPError 400)
                                 | _ \<Rightarrow> Inr [109])
         (\<lambda>i. None) (\<lambda>k. None)
         [\<lparr>page_no = 7, image_uri = Some (lit ''file://d/a''), chunk_count = 3\<rparr>])
      test_config [lit ''d/b'', lit ''d/a''] (0, [])
     = Some (Inl (HTTPError 400), (4,
         [Print (MsgImages 2), Http (UpsertSubject (lit ''Bio'') (lit ''H4'')),
          Http (SelectMaterial (lit ''local://x'')), Http (SelectPages [109]),
          Print (MsgOcr 1 2 (lit ''b'')), Ocr (lit ''d/b''), Sleep (3 / 10),
          Http (UpsertPage [109] 1 (lit ''file://d/b'') (lit ''$adamus$$adamus$''))]))
   \<and> main_pdf
      (test_remote (\<lambda>w q. Inr [109]) (\<lambda>i. None) (\<lambda>k. Some (lit ''hi''))
         [\<lparr>page_no = 2, image_uri = Some (lit ''local://x''), chunk_count = 1\<rparr>])
      test_config 2 (0, [])
     = Some (Inr (), (6,
         [Extract 1, Extract 2, Http (UpsertSubject (lit ''Bio'') (lit ''H4'')),
          Http (SelectMaterial (lit ''local://x'')), Http (SelectPages [109]),
          Http (UpsertPageText [109] 1 (lit ''local://x'') (lit ''$adamus$hi$adamus$'')),
          Http (DeleteChunks [109]), Sleep (1 / 5),
          Http (InsertChunk [109] [109] 1 (lit ''$adamus$hi$adamus$'')), Sleep (1 / 10),
          Print MsgDone]))"
proof -
  define rowsA where "rowsA =
    [\<lparr>page_no = 1, image_uri = None, chunk_count = 2\<rparr>,
     \<lparr>page_no = 7, image_uri = Some (lit ''file://d/a''), chunk_count = 3\<rparr>]"
  define rowsB where "rowsB =
    [\<lparr>page_no = 7, image_uri = Some (lit ''file://d/a''), chunk_count = 3\<rparr>]"
  define rowsC where "rowsC =
    [\<lparr>page_no = 2, image_uri = Some (lit ''local://x''), chunk_count = 1\<rparr>]"
  define RA where "RA = test_remote (\<lambda>w q. Inr [109]) (\<lambda>i. None) (\<lambda>k. None) rowsA"
  define RB where "RB = test_remote (\<lambda>w q. case q of UpsertPage a b c d \<Rightarrow> Inl (HTTPError 400)
                                 | _ \<Rightarrow> Inr [109]) (\<lambda>i. None) (\<lambda>k. None) rowsB"
  define RC where "RC = test_remote (\<lambda>w q. Inr [109]) (\<lambda>i. None) (\<lambda>k. Some (lit ''hi'')) rowsC"
  define tr1 where "tr1 =
     [Http (UpsertSubject (lit ''Bio'') (lit ''H4'')),
      Http (SelectMaterial (lit ''local://x'')), Http (SelectPages [109])]"
  define imgs where "imgs = [lit ''d/b''] @ lit ''d/a'' # []"
  define sA1 where "sA1 = (3::nat, Print (MsgImages 2) # tr1)"
  define sA2 where "sA2 = (3::nat, Print (MsgImages 2) # tr1
       @ [Print (MsgOcr 1 2 (lit ''b'')), Print (MsgSkip 1 (lit ''b''))])"
  define sB2 where "sB2 = (4::nat, Print (MsgImages 2) # tr1
       @ [Print (MsgOcr 1 2 (lit ''b'')), Ocr (lit ''d/b''), Sleep (3 / 10),
          Http (UpsertPage [109] 1 (lit ''file://d/b'') (lit ''$adamus$$adamus$''))])"
  define sC0 where "sC0 = (0::nat, [Extract 1, Extract 2])"
  define sC1 where "sC1 = (3::nat, [Extract 1, Extract 2] @ tr1)"
  define sC2 where "sC2 = (6::nat, [Extract 1, Extract 2] @ tr1
       @ [Http (UpsertPageText [109] 1 (lit ''local://x'') (lit ''$adamus$hi$adamus$'')),
          Http (DeleteChunks [109]), Sleep (1 / 5),
          Http (InsertChunk [109] [109] 1 (lit ''$adamus$hi$adamus$'')), Sleep (1 / 10)])"
  note defs = rowsA_def rowsB_def rowsC_def RA_def RB_def RC_def tr1_def imgs_def
    sA1_def sA2_def sB2_def sC0_def sC1_def sC2_def
  have prepA: "prepare RA test_config (lit ''image'') (length ([lit ''d/b''] @ lit ''d/a'' # []))
        (emit [Print (MsgImages (length ([lit ''d/b''] @ lit ''d/a'' # [])))] (0, []))
      = (Inr ([109], rowsA), sA1)"
    by (simp add: defs driver_eval)
  have loopA: "image_loop RA test_config [109] (length ([lit ''d/b''] @ lit ''d/a'' # []))
        (existing_by_page rowsA) (existing_by_uri rowsA) 1 [lit ''d/b''] sA1
      = Some (Inr (), sA2)"
    by (simp add: defs driver_eval)
  have pageA: "existing_by_page rowsA 2 = None"
    by (simp add: defs driver_eval)
  have uriA: "existing_by_uri rowsA (lit ''file://d/a'')
      = Some \<lparr>page_no = 7, image_uri = Some (lit ''file://d/a''), chunk_count = 3\<rparr>"
    by (simp add: defs driver_eval)
  have doneA: "has_chunks (lookup_existing (existing_by_page rowsA) (existing_by_uri rowsA)
        (Suc (length [lit ''d/b''])) (lit ''file://'' @ lit ''d/a''))"
    by (simp add: defs driver_eval)
  have freeA: "Suc (length [lit ''d/b'']) \<notin> force_pages test_config"
    by (simp add: test_config_def)
  have runA: "main_img RA test_config ([lit ''d/b''] @ lit ''d/a'' # []) (0, [])
      = finish (image_loop RA test_config [109] (length ([lit ''d/b''] @ lit ''d/a'' # []))
          (existing_by_page rowsA) (existing_by_uri rowsA) (Suc (Suc (length [lit ''d/b''])))
          []
          (emit [Print (MsgOcr (Suc (length [lit ''d/b'']))
                   (length ([lit ''d/b''] @ lit ''d/a'' # [])) (path_name (lit ''d/a''))),
                 Print (MsgSkip (Suc (length [lit ''d/b''])) (path_name (lit ''d/a'')))] sA2))"
    using skip_done_page [where R = RA and cfg = test_config and pre = "[lit ''d/b'']"
        and img = "lit ''d/a''" and post = "[]" and st = "(0, [])" and mid = "[109]"
        and rows = rowsA and ?s1.0 = sA1 and ?s2.0 = sA2] prepA loopA doneA freeA
    by blast
  have prepB: "prepare RB test_config (lit ''image'') (length ([lit ''d/b''] @ lit ''d/a'' # []))
        (emit [Print (MsgImages (length ([lit ''d/b''] @ lit ''d/a'' # [])))] (0, []))
      = (Inr ([109], rowsB), sA1)"
    by (simp add: defs driver_eval)
  have loopB: "image_loop RB test_config [109] (length ([lit ''d/b''] @ lit ''d/a'' # []))
        (existing_by_page rowsB) (existing_by_uri rowsB) 1 [lit ''d/b''] sA1
      = Some (Inl (HTTPError 400), sB2)"
    by (simp add: defs driver_eval)
  have runB: "main_img RB test_config ([lit ''d/b''] @ lit ''d/a'' # []) (0, [])
      = Some (Inl (HTTPError 400), sB2)"
    using skip_done_page [where R = RB and cfg = test_config and pre = "[lit ''d/b'']"
        and img = "lit ''d/a''" and post = "[]" and st = "(0, [])" and mid = "[109]"
        and rows = rowsB and ?s1.0 = sA1 and ?s2.0 = sB2 and e = "HTTPError 400"] prepB loopB
    by blast
  have extrC: "extract_pages RC [1 ..< Suc 2] (0, []) = (Inr ([lit ''hi''] @ lit ''hi'' # []), sC0)"
    by (simp add: defs driver_eval)
  have someC: "\<exists>x \<in> set ([lit ''hi''] @ lit ''hi'' # []). x \<noteq> []"
    by (simp add: lit_def)
  have prepC: "prepare RC test_config (lit ''pdf'') (length ([lit ''hi''] @ lit ''hi'' # [])) sC0
      = (Inr ([109], rowsC), sC1)"
    by (simp add: defs driver_eval)
  have loopC: "pdf_loop RC test_config [109] (existing_by_page rowsC) 1 [lit ''hi''] sC1
      = Some (Inr (), sC2)"
    by (simp add: defs driver_eval chunk_eval)
  have doneC: "has_chunks (existing_by_page rowsC (int (Suc (length [lit ''hi'']))))"
    by (simp add: defs driver_eval)
  have runC: "main_pdf RC test_config 2 (0, [])
      = finish (pdf_loop RC test_config [109] (existing_by_page rowsC)
          (Suc (Suc (length [lit ''hi'']))) [] sC2)"
    using skip_done_page [where R = RC and cfg = test_config and npages = 2 and st = "(0, [])"
        and pre_t = "[lit ''hi'']" and t = "lit ''hi''" and post_t = "[]" and ?s0.0 = sC0
        and mid = "[109]" and rows = rowsC and ?s1.0 = sC1 and ?s2.0 = sC2] extrC someC prepC loopC doneC
    by blast
  show ?thesis
    using runA runB runC pageA uriA
    by (simp add: defs finish_def emit_def path_name_def lit_def)
qed

text \<open>
  The original wording of C5 fails for the PDF script: in a run over a document of one
  page, stored with 3 chunks, the text of the page is extracted all the same.
\<close>

theorem pdf_rerun_extracts_done_page:
  "has_chunks (existing_by_page
       [\<lparr>page_no = 1, image_uri = Some (lit ''local://x''), chunk_count = 3\<rparr>] 1)
   \<and> main_pdf
        (test_remote (\<lambda>w q. Inr [109]) (\<lambda>i. None) (\<lambda>k. Some (lit ''hi''))
           [\<lparr>page_no = 1, image_uri = Some (lit ''local://x''), chunk_count = 3\<rparr>])
        test_config 1 (0, [])
     = Some (Inr (), (3,
         [Extract 1, Http (UpsertSubject (lit ''Bio'') (lit ''H4'')),
          Http (SelectMaterial (lit ''local://x'')), Http (SelectPages [109]),
          Print MsgDone]))"
  by (simp add: driver_eval)






















end
